theory Spec2Isabelle
  imports Main "HOL-Library.Monad_Syntax"
begin

section \<open>Data model of the simulation\<close>

text \<open>
  The engine keeps a world as plain data: a grid of tiles, a grid of ground items of the same
  shape, an inventory and six statistics counters. The tagged string unions of the source are
  datatypes, its object types are records, and a JavaScript \<^verbatim>\<open>number\<close> that holds a count,
  a coordinate or a tick is an \<^typ>\<open>int\<close>.
\<close>

datatype Direction = Up | Right | Down | Left

datatype TerrainType = Empty | Iron | Copper

datatype BuildingType = Mine | Belt | Furnace | Assembler | WireMill | Hub | Chest

datatype ItemType = IronOre | CopperOre | IronPlate | CopperPlate | Gear | Wire

datatype Tool = Build BuildingType | Erase

definition MINE_TICKS :: int where "MINE_TICKS = 4"
definition FURNACE_TICKS :: int where "FURNACE_TICKS = 6"
definition ASSEMBLER_TICKS :: int where "ASSEMBLER_TICKS = 8"
definition WIRE_MILL_TICKS :: int where "WIRE_MILL_TICKS = 5"

text \<open>
  \<^verbatim>\<open>Record<ItemType, number>\<close>: one count for each of the six item kinds. \<open>count_of c k\<close> is
  the read \<^verbatim>\<open>c[k]\<close> and \<open>add_count c k n\<close> is the update \<^verbatim>\<open>c[k] += n\<close>.
\<close>

record Counts =
  iron_ore :: int
  copper_ore :: int
  iron_plate :: int
  copper_plate :: int
  gear :: int
  wire :: int

fun count_of :: "Counts \<Rightarrow> ItemType \<Rightarrow> int" where
  "count_of c IronOre = iron_ore c"
| "count_of c CopperOre = copper_ore c"
| "count_of c IronPlate = iron_plate c"
| "count_of c CopperPlate = copper_plate c"
| "count_of c Gear = gear c"
| "count_of c Wire = wire c"

fun add_count :: "Counts \<Rightarrow> ItemType \<Rightarrow> int \<Rightarrow> Counts" where
  "add_count c IronOre n = c\<lparr>iron_ore := iron_ore c + n\<rparr>"
| "add_count c CopperOre n = c\<lparr>copper_ore := copper_ore c + n\<rparr>"
| "add_count c IronPlate n = c\<lparr>iron_plate := iron_plate c + n\<rparr>"
| "add_count c CopperPlate n = c\<lparr>copper_plate := copper_plate c + n\<rparr>"
| "add_count c Gear n = c\<lparr>gear := gear c + n\<rparr>"
| "add_count c Wire n = c\<lparr>wire := wire c + n\<rparr>"

definition createBuffer :: Counts where
  "createBuffer = \<lparr>iron_ore = 0, copper_ore = 0, iron_plate = 0, copper_plate = 0, gear = 0, wire = 0\<rparr>"

record Building =
  btype :: BuildingType
  dir :: Direction
  progress :: int
  buffer :: Counts

record Tile =
  terrain :: TerrainType
  resource :: int
  building :: "Building option"

record Stats =
  ironMined :: int
  copperMined :: int
  ironPlates :: int
  copperPlates :: int
  gearsCrafted :: int
  wiresCrafted :: int

text \<open>
  A grid is a list of rows, indexed \<^verbatim>\<open>g[y][x]\<close>. An \<^verbatim>\<open>Item\<close> has the single field
  \<^verbatim>\<open>type\<close>, so a ground-item slot \<^verbatim>\<open>Item | null\<close> is an \<^typ>\<open>ItemType option\<close>.
\<close>

type_synonym 'a grid = "'a list list"

record GameState =
  width :: int
  height :: int
  tick :: int
  tiles :: "Tile grid"
  items :: "ItemType option grid"
  inventory :: Counts
  stats :: Stats

section \<open>Grid access\<close>

text \<open>
  \<open>cell g x y\<close> is the read \<^verbatim>\<open>g[y][x]\<close>; it is \<open>None\<close> when the row or the column is not stored
  in the grid. The engine reads a property of what it finds in the tile grid and indexes the
  rows of the item grid, which in JavaScript throws a \<^verbatim>\<open>TypeError\<close> on a missing row or tile
  (a missing column of the item grid reads \<^verbatim>\<open>undefined\<close>). The model treats every access
  outside the stored grid as the failure \<open>None\<close> of the operation that makes it. On a world
  whose two grids are \<open>height\<close> rows of \<open>width\<close> columns no such access happens.
  \<open>setCell g x y v\<close> is the write \<^verbatim>\<open>g[y][x] = v\<close>; every write of the engine follows a
  successful read of the same position in a grid of the same shape, and outside the stored
  grid \<open>setCell\<close> leaves the grid as it is.
\<close>

definition cell :: "'a grid \<Rightarrow> int \<Rightarrow> int \<Rightarrow> 'a option" where
  "cell g x y =
     (if 0 \<le> y \<and> y < int (length g) \<and> 0 \<le> x \<and> x < int (length (g ! nat y))
      then Some (g ! nat y ! nat x) else None)"

definition setCell :: "'a grid \<Rightarrow> int \<Rightarrow> int \<Rightarrow> 'a \<Rightarrow> 'a grid" where
  "setCell g x y v = (if 0 \<le> y \<and> 0 \<le> x then g[nat y := (g ! nat y)[nat x := v]] else g)"

definition tileAt :: "GameState \<Rightarrow> int \<Rightarrow> int \<Rightarrow> Tile option" where
  "tileAt s x y = cell (tiles s) x y"

definition itemAt :: "GameState \<Rightarrow> int \<Rightarrow> int \<Rightarrow> ItemType option option" where
  "itemAt s x y = cell (items s) x y"

definition setTile :: "GameState \<Rightarrow> int \<Rightarrow> int \<Rightarrow> Tile \<Rightarrow> GameState" where
  "setTile s x y t = s\<lparr>tiles := setCell (tiles s) x y t\<rparr>"

definition setItem :: "GameState \<Rightarrow> int \<Rightarrow> int \<Rightarrow> ItemType option \<Rightarrow> GameState" where
  "setItem s x y i = s\<lparr>items := setCell (items s) x y i\<rparr>"

definition inBounds :: "GameState \<Rightarrow> int \<Rightarrow> int \<Rightarrow> bool" where
  "inBounds s x y \<longleftrightarrow> x \<ge> 0 \<and> y \<ge> 0 \<and> x < width s \<and> y < height s"

fun stepInDir :: "int \<Rightarrow> int \<Rightarrow> Direction \<Rightarrow> int \<times> int" where
  "stepInDir x y Up = (x, y - 1)"
| "stepInDir x y Right = (x + 1, y)"
| "stepInDir x y Down = (x, y + 1)"
| "stepInDir x y Left = (x - 1, y)"

definition DIRECTIONS :: "Direction list" where
  "DIRECTIONS = [Up, Right, Down, Left]"

definition cloneItemGrid :: "ItemType option grid \<Rightarrow> ItemType option grid" where
  "cloneItemGrid g = map (\<lambda>row. map (\<lambda>item. case item of Some i \<Rightarrow> Some i | None \<Rightarrow> None) row) g"

definition cloneState :: "GameState \<Rightarrow> GameState" where
  "cloneState s =
     \<lparr>width = width s, height = height s, tick = tick s,
      tiles = map (\<lambda>row. map (\<lambda>t.
          \<lparr>terrain = terrain t, resource = resource t,
           building = (case building t of
                Some b \<Rightarrow> Some \<lparr>btype = btype b, dir = dir b, progress = progress b, buffer = buffer b\<rparr>
              | None \<Rightarrow> None)\<rparr>) row) (tiles s),
      items = cloneItemGrid (items s),
      inventory = inventory s,
      stats = stats s\<rparr>"

text \<open>The well-formed worlds of the data model: both grids are \<open>height\<close> rows of \<open>width\<close> columns.\<close>

definition gridShape :: "'a grid \<Rightarrow> int \<Rightarrow> int \<Rightarrow> bool" where
  "gridShape g w h \<longleftrightarrow> int (length g) = h \<and> (\<forall>row \<in> set g. int (length row) = w)"

definition validWorld :: "GameState \<Rightarrow> bool" where
  "validWorld s \<longleftrightarrow> gridShape (tiles s) (width s) (height s)
       \<and> gridShape (items s) (width s) (height s)"

section \<open>Loops\<close>

text \<open>
  A \<^verbatim>\<open>for\<close> loop over a list of indices whose body may fail: the state is threaded through
  the body from left to right, and the first failure ends the loop.
\<close>

fun forEach :: "'a list \<Rightarrow> ('a \<Rightarrow> 's \<Rightarrow> 's option) \<Rightarrow> 's \<Rightarrow> 's option" where
  "forEach [] f s = Some s"
| "forEach (a # as) f s = (case f a s of None \<Rightarrow> None | Some s' \<Rightarrow> forEach as f s')"

section \<open>Placement\<close>

definition BUILD_COSTS :: "BuildingType \<Rightarrow> (ItemType \<times> int) list" where
  "BUILD_COSTS t = (case t of
       Belt \<Rightarrow> [(IronPlate, 1)]
     | Mine \<Rightarrow> [(IronPlate, 4), (Gear, 2)]
     | Furnace \<Rightarrow> [(IronPlate, 3), (CopperPlate, 2)]
     | Assembler \<Rightarrow> [(IronPlate, 4), (Gear, 4)]
     | WireMill \<Rightarrow> [(IronPlate, 2), (CopperPlate, 3)]
     | Hub \<Rightarrow> [(IronPlate, 6), (CopperPlate, 4), (Gear, 2)]
     | Chest \<Rightarrow> [(IronPlate, 2)])"

fun affordAll :: "Counts \<Rightarrow> (ItemType \<times> int) list \<Rightarrow> bool" where
  "affordAll c [] = True"
| "affordAll c ((item, needed) # rest) =
     (if count_of c item < needed then False else affordAll c rest)"

definition canAffordBuild :: "GameState \<Rightarrow> BuildingType \<Rightarrow> bool" where
  "canAffordBuild s t = affordAll (inventory s) (BUILD_COSTS t)"

fun spendAll :: "Counts \<Rightarrow> (ItemType \<times> int) list \<Rightarrow> Counts" where
  "spendAll c [] = c"
| "spendAll c ((item, needed) # rest) = spendAll (add_count c item (- needed)) rest"

definition spendBuildCost :: "GameState \<Rightarrow> BuildingType \<Rightarrow> GameState" where
  "spendBuildCost s t = s\<lparr>inventory := spendAll (inventory s) (BUILD_COSTS t)\<rparr>"

definition placeBuilding :: "GameState \<Rightarrow> int \<Rightarrow> int \<Rightarrow> Tool \<Rightarrow> Direction \<Rightarrow> GameState option" where
  "placeBuilding state x y tool d =
     (if x < 0 \<or> y < 0 \<or> x \<ge> width state \<or> y \<ge> height state then Some state
      else let next = cloneState state in
        (case tool of
           Erase \<Rightarrow> do {
             t \<leftarrow> tileAt next x y;
             Some (setTile next x y (t\<lparr>building := None\<rparr>))
           }
         | Build ty \<Rightarrow>
             if \<not> canAffordBuild next ty then Some state
             else do {
               let next = spendBuildCost next ty;
               t \<leftarrow> tileAt next x y;
               let next = setTile next x y
                    (t\<lparr>building := Some \<lparr>btype = ty, dir = d, progress = 0, buffer = createBuffer\<rparr>\<rparr>);
               if ty \<noteq> Belt then do {
                 _ \<leftarrow> itemAt next x y;
                 Some (setItem next x y None)
               } else Some next
             }))"

section \<open>The tick: production\<close>

definition canPlaceItem :: "GameState \<Rightarrow> int \<Rightarrow> int \<Rightarrow> bool option" where
  "canPlaceItem s x y =
     (if \<not> inBounds s x y then Some False
      else do {
        t \<leftarrow> tileAt s x y;
        if (case building t of Some b \<Rightarrow> btype b \<noteq> Belt | None \<Rightarrow> False) then Some False
        else do {
          i \<leftarrow> itemAt s x y;
          Some (i = None)
        }
      })"

text \<open>
  The three neighbour searches of the source differ only in the test on the item found; each
  walks \<open>DIRECTIONS\<close> in order and returns the first in-bounds neighbour whose ground item
  passes the test (\<open>Some None\<close> when there is none).
\<close>

fun findNeighborWith ::
  "(ItemType \<Rightarrow> bool) \<Rightarrow> GameState \<Rightarrow> int \<Rightarrow> int \<Rightarrow> Direction list \<Rightarrow> (int \<times> int) option option" where
  "findNeighborWith P s x y [] = Some None"
| "findNeighborWith P s x y (d # ds) =
     (case stepInDir x y d of (nx, ny) \<Rightarrow>
        if \<not> inBounds s nx ny then findNeighborWith P s x y ds
        else do {
          i \<leftarrow> itemAt s nx ny;
          case i of
            Some item \<Rightarrow> if P item then Some (Some (nx, ny)) else findNeighborWith P s x y ds
          | None \<Rightarrow> findNeighborWith P s x y ds
        })"

definition findNeighborItem :: "GameState \<Rightarrow> int \<Rightarrow> int \<Rightarrow> ItemType \<Rightarrow> (int \<times> int) option option" where
  "findNeighborItem s x y ty = findNeighborWith (\<lambda>i. i = ty) s x y DIRECTIONS"

definition findNeighborItemByTypes ::
  "GameState \<Rightarrow> int \<Rightarrow> int \<Rightarrow> ItemType list \<Rightarrow> (int \<times> int) option option" where
  "findNeighborItemByTypes s x y types = findNeighborWith (\<lambda>i. i \<in> set types) s x y DIRECTIONS"

definition findNeighborItemAny :: "GameState \<Rightarrow> int \<Rightarrow> int \<Rightarrow> (int \<times> int) option option" where
  "findNeighborItemAny s x y = findNeighborWith (\<lambda>i. True) s x y DIRECTIONS"

text \<open>
  The body of the production loop at tile \<open>(x, y)\<close>, one definition for each building type
  that acts. \<open>t\<close> is the tile read at \<open>(x, y)\<close> and \<open>b\<close> its building; the source mutates the
  building object in place, the model writes the changed building back to its tile.
\<close>

definition stepMine :: "GameState \<Rightarrow> int \<Rightarrow> int \<Rightarrow> Tile \<Rightarrow> Building \<Rightarrow> GameState option" where
  "stepMine s x y t b =
     (if terrain t = Empty then Some s
      else if resource t \<le> 0 then Some s
      else
        let b1 = b\<lparr>progress := progress b + 1\<rparr>;
            s1 = setTile s x y (t\<lparr>building := Some b1\<rparr>)
        in
        if progress b1 \<ge> MINE_TICKS then
          (case stepInDir x y (dir b1) of (nx, ny) \<Rightarrow> do {
             ok \<leftarrow> canPlaceItem s1 nx ny;
             if ok then
               let oreType = (if terrain t = Iron then IronOre else CopperOre);
                   s2 = setItem s1 nx ny (Some oreType);
                   r = resource t - 1;
                   t2 = \<lparr>terrain = (if r \<le> 0 then Empty else terrain t),
                         resource = (if r \<le> 0 then 0 else r),
                         building = Some (b1\<lparr>progress := 0\<rparr>)\<rparr>;
                   s3 = setTile s2 x y t2
               in
               if terrain t = Iron
               then Some (s3\<lparr>stats := (stats s3)\<lparr>ironMined := ironMined (stats s3) + 1\<rparr>\<rparr>)
               else Some (s3\<lparr>stats := (stats s3)\<lparr>copperMined := copperMined (stats s3) + 1\<rparr>\<rparr>)
             else Some s1
           })
        else Some s1)"

definition stepFurnace :: "GameState \<Rightarrow> int \<Rightarrow> int \<Rightarrow> Tile \<Rightarrow> Building \<Rightarrow> GameState option" where
  "stepFurnace s x y t b = do {
     (s1, b1) \<leftarrow>
       (if count_of (buffer b) IronOre = 0 \<and> count_of (buffer b) CopperOre = 0 then do {
          neighbor \<leftarrow> findNeighborItemByTypes s x y [IronOre, CopperOre];
          case neighbor of
            None \<Rightarrow> Some (s, b)
          | Some (nx, ny) \<Rightarrow> do {
              i \<leftarrow> itemAt s nx ny;
              case i of
                None \<Rightarrow> Some (s, b)
              | Some oreType \<Rightarrow>
                  let b' = b\<lparr>buffer := add_count (buffer b) oreType 1, progress := 0\<rparr>
                  in Some (setTile (setItem s nx ny None) x y (t\<lparr>building := Some b'\<rparr>), b')
            }
        } else Some (s, b));
     let oreType = (if count_of (buffer b1) IronOre > 0 then Some IronOre
                    else if count_of (buffer b1) CopperOre > 0 then Some CopperOre
                    else None);
     case oreType of
       None \<Rightarrow> Some s1
     | Some ore \<Rightarrow>
         let b2 = b1\<lparr>progress := progress b1 + 1\<rparr>;
             s2 = setTile s1 x y (t\<lparr>building := Some b2\<rparr>)
         in
         if progress b2 \<ge> FURNACE_TICKS then
           (case stepInDir x y (dir b2) of (nx, ny) \<Rightarrow> do {
              ok \<leftarrow> canPlaceItem s2 nx ny;
              if ok then
                let plateType = (if ore = IronOre then IronPlate else CopperPlate);
                    s3 = setItem s2 nx ny (Some plateType);
                    b3 = b2\<lparr>buffer := add_count (buffer b2) ore (- 1), progress := 0\<rparr>;
                    s4 = setTile s3 x y (t\<lparr>building := Some b3\<rparr>)
                in
                if plateType = IronPlate
                then Some (s4\<lparr>stats := (stats s4)\<lparr>ironPlates := ironPlates (stats s4) + 1\<rparr>\<rparr>)
                else Some (s4\<lparr>stats := (stats s4)\<lparr>copperPlates := copperPlates (stats s4) + 1\<rparr>\<rparr>)
              else Some s2
            })
         else Some s2
   }"

definition stepAssembler :: "GameState \<Rightarrow> int \<Rightarrow> int \<Rightarrow> Tile \<Rightarrow> Building \<Rightarrow> GameState option" where
  "stepAssembler s x y t b = do {
     (s1, b1) \<leftarrow>
       (if count_of (buffer b) IronPlate < 2 then do {
          neighbor \<leftarrow> findNeighborItem s x y IronPlate;
          case neighbor of
            None \<Rightarrow> Some (s, b)
          | Some (nx, ny) \<Rightarrow> do {
              _ \<leftarrow> itemAt s nx ny;
              let b' = b\<lparr>buffer := add_count (buffer b) IronPlate 1, progress := 0\<rparr>;
              Some (setTile (setItem s nx ny None) x y (t\<lparr>building := Some b'\<rparr>), b')
            }
        } else Some (s, b));
     if count_of (buffer b1) IronPlate \<ge> 2 then
       let b2 = b1\<lparr>progress := progress b1 + 1\<rparr>;
           s2 = setTile s1 x y (t\<lparr>building := Some b2\<rparr>)
       in
       if progress b2 \<ge> ASSEMBLER_TICKS then
         (case stepInDir x y (dir b2) of (nx, ny) \<Rightarrow> do {
            ok \<leftarrow> canPlaceItem s2 nx ny;
            if ok then
              let s3 = setItem s2 nx ny (Some Gear);
                  b3 = b2\<lparr>buffer := add_count (buffer b2) IronPlate (- 2), progress := 0\<rparr>;
                  s4 = setTile s3 x y (t\<lparr>building := Some b3\<rparr>)
              in Some (s4\<lparr>stats := (stats s4)\<lparr>gearsCrafted := gearsCrafted (stats s4) + 1\<rparr>\<rparr>)
            else Some s2
          })
       else Some s2
     else Some s1
   }"

definition stepWireMill :: "GameState \<Rightarrow> int \<Rightarrow> int \<Rightarrow> Tile \<Rightarrow> Building \<Rightarrow> GameState option" where
  "stepWireMill s x y t b = do {
     (s1, b1) \<leftarrow>
       (if count_of (buffer b) CopperPlate < 1 then do {
          neighbor \<leftarrow> findNeighborItem s x y CopperPlate;
          case neighbor of
            None \<Rightarrow> Some (s, b)
          | Some (nx, ny) \<Rightarrow> do {
              _ \<leftarrow> itemAt s nx ny;
              let b' = b\<lparr>buffer := add_count (buffer b) CopperPlate 1, progress := 0\<rparr>;
              Some (setTile (setItem s nx ny None) x y (t\<lparr>building := Some b'\<rparr>), b')
            }
        } else Some (s, b));
     if count_of (buffer b1) CopperPlate \<ge> 1 then
       let b2 = b1\<lparr>progress := progress b1 + 1\<rparr>;
           s2 = setTile s1 x y (t\<lparr>building := Some b2\<rparr>)
       in
       if progress b2 \<ge> WIRE_MILL_TICKS then
         (case stepInDir x y (dir b2) of (nx, ny) \<Rightarrow> do {
            ok \<leftarrow> canPlaceItem s2 nx ny;
            if ok then
              let s3 = setItem s2 nx ny (Some Wire);
                  b3 = b2\<lparr>buffer := add_count (buffer b2) CopperPlate (- 1), progress := 0\<rparr>;
                  s4 = setTile s3 x y (t\<lparr>building := Some b3\<rparr>)
              in Some (s4\<lparr>stats := (stats s4)\<lparr>wiresCrafted := wiresCrafted (stats s4) + 1\<rparr>\<rparr>)
            else Some s2
          })
       else Some s2
     else Some s1
   }"

definition stepHub :: "GameState \<Rightarrow> int \<Rightarrow> int \<Rightarrow> GameState option" where
  "stepHub s x y = do {
     neighbor \<leftarrow> findNeighborItemAny s x y;
     case neighbor of
       None \<Rightarrow> Some s
     | Some (nx, ny) \<Rightarrow> do {
         i \<leftarrow> itemAt s nx ny;
         case i of
           None \<Rightarrow> Some s
         | Some item \<Rightarrow>
             let s1 = setItem s nx ny None
             in Some (s1\<lparr>inventory := add_count (inventory s1) item 1\<rparr>)
       }
   }"

definition stepTile :: "int \<Rightarrow> int \<Rightarrow> GameState \<Rightarrow> GameState option" where
  "stepTile x y s = do {
     t \<leftarrow> tileAt s x y;
     case building t of
       None \<Rightarrow> Some s
     | Some b \<Rightarrow>
         (case btype b of
            Mine \<Rightarrow> stepMine s x y t b
          | Furnace \<Rightarrow> stepFurnace s x y t b
          | Assembler \<Rightarrow> stepAssembler s x y t b
          | WireMill \<Rightarrow> stepWireMill s x y t b
          | Hub \<Rightarrow> stepHub s x y
          | Belt \<Rightarrow> Some s
          | Chest \<Rightarrow> Some s)
   }"

definition productionPhase :: "GameState \<Rightarrow> GameState option" where
  "productionPhase next =
     forEach [0..height next - 1] (\<lambda>y. forEach [0..width next - 1] (\<lambda>x. stepTile x y)) next"

section \<open>The tick: belt transport\<close>

text \<open>
  The belt loop reads items from \<^verbatim>\<open>next.items\<close>, which it never writes, and writes the
  grid \<^verbatim>\<open>moved\<close>; it also mutates the inventory and the destination buildings of \<^verbatim>\<open>next\<close>.
  Its state is the pair of the world and the moved grid.
\<close>

definition deliver ::
  "GameState \<Rightarrow> ItemType option grid \<Rightarrow> int \<Rightarrow> int \<Rightarrow> ItemType \<Rightarrow> int \<Rightarrow> int \<Rightarrow> Tile \<Rightarrow> Building
     \<Rightarrow> GameState \<times> ItemType option grid" where
  "deliver next moved x y item nx ny dt db =
     (if btype db = Chest \<or> btype db = Hub then
        (next\<lparr>inventory := add_count (inventory next) item 1\<rparr>, setCell moved x y None)
      else if btype db = Furnace then
        (if (item = IronOre \<or> item = CopperOre)
            \<and> count_of (buffer db) IronOre = 0 \<and> count_of (buffer db) CopperOre = 0
         then (setTile next nx ny
                 (dt\<lparr>building := Some (db\<lparr>buffer := add_count (buffer db) item 1, progress := 0\<rparr>)\<rparr>),
               setCell moved x y None)
         else (next, moved))
      else if btype db = Assembler then
        (if item = IronPlate \<and> count_of (buffer db) IronPlate < 2
         then (setTile next nx ny
                 (dt\<lparr>building := Some (db\<lparr>buffer := add_count (buffer db) IronPlate 1, progress := 0\<rparr>)\<rparr>),
               setCell moved x y None)
         else (next, moved))
      else if btype db = WireMill then
        (if item = CopperPlate \<and> count_of (buffer db) CopperPlate < 1
         then (setTile next nx ny
                 (dt\<lparr>building := Some (db\<lparr>buffer := add_count (buffer db) CopperPlate 1, progress := 0\<rparr>)\<rparr>),
               setCell moved x y None)
         else (next, moved))
      else (next, moved))"

definition beltStep ::
  "int \<Rightarrow> int \<Rightarrow> GameState \<times> ItemType option grid \<Rightarrow> (GameState \<times> ItemType option grid) option" where
  "beltStep x y = (\<lambda>(next, moved). do {
     i \<leftarrow> itemAt next x y;
     case i of
       None \<Rightarrow> Some (next, moved)
     | Some item \<Rightarrow> do {
         t \<leftarrow> tileAt next x y;
         case building t of
           None \<Rightarrow> Some (next, moved)
         | Some b \<Rightarrow>
             if btype b \<noteq> Belt then Some (next, moved)
             else (case stepInDir x y (dir b) of (nx, ny) \<Rightarrow>
               if \<not> inBounds next nx ny then Some (next, moved)
               else do {
                 dt \<leftarrow> tileAt next nx ny;
                 case building dt of
                   Some db \<Rightarrow>
                     if btype db \<noteq> Belt then Some (deliver next moved x y item nx ny dt db)
                     else do {
                       d \<leftarrow> cell moved nx ny;
                       if d = None
                       then Some (next, setCell (setCell moved nx ny (Some item)) x y None)
                       else Some (next, moved)
                     }
                 | None \<Rightarrow> do {
                     d \<leftarrow> cell moved nx ny;
                     if d = None
                     then Some (next, setCell (setCell moved nx ny (Some item)) x y None)
                     else Some (next, moved)
                   }
               })
       }
   })"

definition beltPhase :: "GameState \<Rightarrow> (GameState \<times> ItemType option grid) option" where
  "beltPhase next =
     forEach [0..height next - 1] (\<lambda>y. forEach [0..width next - 1] (\<lambda>x. beltStep x y))
       (next, cloneItemGrid (items next))"

definition stepGame :: "GameState \<Rightarrow> GameState option" where
  "stepGame state = do {
     let next = cloneState state;
     let next = next\<lparr>tick := tick next + 1\<rparr>;
     next \<leftarrow> productionPhase next;
     (next, moved) \<leftarrow> beltPhase next;
     Some (next\<lparr>items := moved\<rparr>)
   }"

section \<open>Snapshot normalisation\<close>

text \<open>
  \<open>normalizeState\<close> receives a stored snapshot that may have an older shape: it reads fields
  that may be absent and tags outside the current unions. A snapshot is therefore modelled
  on its own: a tag is a string, a field read through \<^verbatim>\<open>??\<close> is an option (\<open>None\<close> for
  \<^verbatim>\<open>undefined\<close> or \<^verbatim>\<open>null\<close>), and an object read by key (a buffer, the inventory, the
  stats) is a map from keys to numbers. The result is a snapshot of the same type, so that
  the function can be applied to its own output.
\<close>

type_synonym RawCounts = "string \<rightharpoonup> int"

record RawBuilding =
  raw_type :: string
  raw_dir :: string
  raw_progress :: "int option"
  raw_buffer :: "RawCounts option"

record RawTile =
  raw_terrain :: "string option"
  raw_resource :: "int option"
  raw_building :: "RawBuilding option"

record RawItem =
  raw_kind :: "string option"

record Snapshot =
  snap_width :: int
  snap_height :: int
  snap_tick :: "int option"
  snap_tiles :: "RawTile grid"
  snap_items :: "RawItem option grid"
  snap_inventory :: "RawCounts option"
  snap_stats :: "RawCounts option"

text \<open>\<open>coalesce a d\<close> is \<^verbatim>\<open>a ?? d\<close>, and \<open>field obj k\<close> is \<^verbatim>\<open>obj?.k\<close>.\<close>

definition coalesce :: "'a option \<Rightarrow> 'a \<Rightarrow> 'a" where
  "coalesce a d = (case a of Some v \<Rightarrow> v | None \<Rightarrow> d)"

definition field :: "RawCounts option \<Rightarrow> string \<Rightarrow> int option" where
  "field obj k = (case obj of Some m \<Rightarrow> m k | None \<Rightarrow> None)"

definition normalizeTerrain :: "string option \<Rightarrow> string option" where
  "normalizeTerrain t = (if t = Some ''ore'' then Some ''iron'' else t)"

definition normalizeBuilding :: "string \<Rightarrow> string" where
  "normalizeBuilding ty = ty"

definition normalizeItemType :: "string option \<Rightarrow> string option" where
  "normalizeItemType ty =
     (if ty = Some ''ore'' then Some ''iron-ore''
      else if ty = Some ''plate'' then Some ''iron-plate''
      else if ty = Some ''gear'' then Some ''gear''
      else if ty = Some ''iron-ore'' \<or> ty = Some ''copper-ore'' \<or> ty = Some ''iron-plate''
            \<or> ty = Some ''copper-plate'' \<or> ty = Some ''wire'' then ty
      else None)"

text \<open>\<open>rawBuffer\<close> is the object that \<^verbatim>\<open>createBuffer()\<close> returns, read as a snapshot object:
  the six item keys, each with count 0.\<close>

definition rawBuffer :: RawCounts where
  "rawBuffer = [''iron-ore'' \<mapsto> 0, ''copper-ore'' \<mapsto> 0, ''iron-plate'' \<mapsto> 0,
                ''copper-plate'' \<mapsto> 0, ''gear'' \<mapsto> 0, ''wire'' \<mapsto> 0]"

text \<open>\<open>addTo next k n\<close> is \<^verbatim>\<open>next[k] += n\<close> on a key that \<open>next\<close> holds.\<close>

definition addTo :: "RawCounts \<Rightarrow> string \<Rightarrow> int \<Rightarrow> RawCounts" where
  "addTo next k n = next(k \<mapsto> coalesce (next k) 0 + n)"

definition normalizeBuffer :: "RawCounts \<Rightarrow> RawCounts" where
  "normalizeBuffer buf =
     (let next = rawBuffer;
          next = addTo next ''iron-ore'' (coalesce (buf ''iron-ore'') (coalesce (buf ''ore'') 0));
          next = addTo next ''copper-ore'' (coalesce (buf ''copper-ore'') 0);
          next = addTo next ''iron-plate'' (coalesce (buf ''iron-plate'') (coalesce (buf ''plate'') 0));
          next = addTo next ''copper-plate'' (coalesce (buf ''copper-plate'') 0);
          next = addTo next ''gear'' (coalesce (buf ''gear'') 0);
          next = addTo next ''wire'' (coalesce (buf ''wire'') 0)
      in next)"

definition normalizeInventory :: "RawCounts \<Rightarrow> RawCounts" where
  "normalizeInventory seed = normalizeBuffer seed"

text \<open>The three inline parts of \<open>normalizeState\<close>: the function it maps over the tiles, the
  function it maps over the ground items, and the object it builds for the stats.\<close>

definition normalizeTile :: "RawTile \<Rightarrow> RawTile" where
  "normalizeTile tile =
     \<lparr>raw_terrain = normalizeTerrain (raw_terrain tile),
      raw_resource = Some (coalesce (raw_resource tile) (if raw_terrain tile = Some ''empty'' then 0 else 40)),
      raw_building = (case raw_building tile of
          Some b \<Rightarrow> Some \<lparr>raw_type = normalizeBuilding (raw_type b),
                          raw_dir = raw_dir b,
                          raw_progress = Some (coalesce (raw_progress b) 0),
                          raw_buffer = Some (normalizeBuffer (coalesce (raw_buffer b) rawBuffer))\<rparr>
        | None \<Rightarrow> None)\<rparr>"

definition normalizeItem :: "RawItem option \<Rightarrow> RawItem option" where
  "normalizeItem item =
     (case item of
        None \<Rightarrow> None
      | Some i \<Rightarrow> (case normalizeItemType (raw_kind i) of
            Some ty \<Rightarrow> Some \<lparr>raw_kind = Some ty\<rparr>
          | None \<Rightarrow> None))"

definition normalizeStats :: "RawCounts option \<Rightarrow> RawCounts" where
  "normalizeStats st =
     [''ironMined'' \<mapsto> coalesce (field st ''ironMined'') (coalesce (field st ''oreMined'') 0),
      ''copperMined'' \<mapsto> coalesce (field st ''copperMined'') 0,
      ''ironPlates'' \<mapsto> coalesce (field st ''ironPlates'') (coalesce (field st ''platesSmelted'') 0),
      ''copperPlates'' \<mapsto> coalesce (field st ''copperPlates'') 0,
      ''gearsCrafted'' \<mapsto> coalesce (field st ''gearsCrafted'') 0,
      ''wiresCrafted'' \<mapsto> coalesce (field st ''wiresCrafted'') 0]"

definition normalizeState :: "Snapshot \<Rightarrow> Snapshot" where
  "normalizeState state =
     \<lparr>snap_width = snap_width state,
      snap_height = snap_height state,
      snap_tick = Some (coalesce (snap_tick state) 0),
      snap_tiles = map (\<lambda>row. map normalizeTile row) (snap_tiles state),
      snap_items = map (\<lambda>row. map normalizeItem row) (snap_items state),
      snap_inventory = Some (normalizeInventory (coalesce (snap_inventory state) Map.empty)),
      snap_stats = Some (normalizeStats (snap_stats state))\<rparr>"

section \<open>Measures and frames used in the properties\<close>

text \<open>The sum of \<open>f\<close> over every cell of a grid.\<close>

definition gridSum :: "('a \<Rightarrow> int) \<Rightarrow> 'a grid \<Rightarrow> int" where
  "gridSum f g = sum_list (map (\<lambda>row. sum_list (map f row)) g)"

text \<open>What no part of a tick changes: the dimensions, the tick counter within the loops, and
  whether the grids have the shape of the dimensions.\<close>

definition sameFrame :: "GameState \<Rightarrow> GameState \<Rightarrow> bool" where
  "sameFrame s s' \<longleftrightarrow> width s' = width s \<and> height s' = height s \<and> tick s' = tick s
       \<and> validWorld s' = validWorld s"

text \<open>What a tick never changes at a position: whether a building stands there, and its type
  and direction.\<close>

definition layoutAt :: "GameState \<Rightarrow> int \<Rightarrow> int \<Rightarrow> (BuildingType \<times> Direction) option option" where
  "layoutAt s x y = map_option (\<lambda>t. map_option (\<lambda>b. (btype b, dir b)) (building t)) (tileAt s x y)"

text \<open>The positions of a \<open>w\<close> by \<open>h\<close> grid in the order the two nested loops visit them:
  row by row, each row from left to right.\<close>

definition scanOrder :: "int \<Rightarrow> int \<Rightarrow> (int \<times> int) list" where
  "scanOrder w h = concat (map (\<lambda>y. map (\<lambda>x. (x, y)) [0..w - 1]) [0..h - 1])"

text \<open>\<open>before p q\<close>: position \<open>p\<close> is visited before position \<open>q\<close>.\<close>

definition before :: "int \<times> int \<Rightarrow> int \<times> int \<Rightarrow> bool" where
  "before p q \<longleftrightarrow> snd p < snd q \<or> (snd p = snd q \<and> fst p < fst q)"

text \<open>During the belt loop, a position that holds an item at the start of the loop and has not
  been visited yet still holds that item in the moved grid.\<close>

definition unmoved :: "(int \<times> int) list \<Rightarrow> GameState \<Rightarrow> ItemType option grid \<Rightarrow> bool" where
  "unmoved done s m \<longleftrightarrow>
     (\<forall>x y i. (x, y) \<notin> set done \<longrightarrow> itemAt s x y = Some (Some i) \<longrightarrow> cell m x y = Some (Some i))"

text \<open>The items of a world: one for each occupied ground slot, the counts of every building
  buffer, and the counts of the inventory.\<close>

definition slotCount :: "ItemType option \<Rightarrow> int" where
  "slotCount i = (case i of None \<Rightarrow> 0 | Some _ \<Rightarrow> 1)"

definition sumCounts :: "Counts \<Rightarrow> int" where
  "sumCounts c = iron_ore c + copper_ore c + iron_plate c + copper_plate c + gear c + wire c"

definition tileBuffer :: "Tile \<Rightarrow> int" where
  "tileBuffer t = (case building t of None \<Rightarrow> 0 | Some b \<Rightarrow> sumCounts (buffer b))"

definition groundItems :: "GameState \<Rightarrow> int" where
  "groundItems s = gridSum slotCount (items s)"

definition bufferedItems :: "GameState \<Rightarrow> int" where
  "bufferedItems s = gridSum tileBuffer (tiles s)"

definition totalItems :: "GameState \<Rightarrow> int" where
  "totalItems s = groundItems s + bufferedItems s + sumCounts (inventory s)"

text \<open>The item total corrected by the production counters: every ore mined adds an item and
  every gear crafted turns two plates into one item.\<close>

definition balance :: "GameState \<Rightarrow> int" where
  "balance s = totalItems s - ironMined (stats s) - copperMined (stats s) + gearsCrafted (stats s)"

text \<open>The amount of an item kind in the cost table of a building type: \<^verbatim>\<open>cost[item] ?? 0\<close>.\<close>

definition buildCost :: "BuildingType \<Rightarrow> ItemType \<Rightarrow> int" where
  "buildCost t k = (case map_of (BUILD_COSTS t) k of Some n \<Rightarrow> n | None \<Rightarrow> 0)"

text \<open>\<open>steps n w\<close> runs \<open>n\<close> ticks from \<open>w\<close>.\<close>

fun steps :: "nat \<Rightarrow> GameState \<Rightarrow> GameState option" where
  "steps 0 w = Some w"
| "steps (Suc n) w = Option.bind (stepGame w) (steps n)"

text \<open>\<open>feeds s p q i\<close>: a belt stands at \<open>p\<close>, carries the ground item \<open>i\<close>, and faces \<open>q\<close>.
  \<open>freeTile s x y\<close>: the tile is stored and holds no building or a belt, the case in which the
  belt loop moves an item onto it.\<close>

definition feeds :: "GameState \<Rightarrow> int \<times> int \<Rightarrow> int \<times> int \<Rightarrow> ItemType \<Rightarrow> bool" where
  "feeds s p q i \<longleftrightarrow>
     (case layoutAt s (fst p) (snd p) of
        Some (Some (k, d)) \<Rightarrow>
          k = Belt \<and> itemAt s (fst p) (snd p) = Some (Some i) \<and> stepInDir (fst p) (snd p) d = q
      | _ \<Rightarrow> False)"

definition freeTile :: "GameState \<Rightarrow> int \<Rightarrow> int \<Rightarrow> bool" where
  "freeTile s x y \<longleftrightarrow>
     (case layoutAt s x y of Some None \<Rightarrow> True | Some (Some (k, d)) \<Rightarrow> k = Belt | None \<Rightarrow> False)"

text \<open>\<open>credits s p i\<close>: a belt stands at \<open>p\<close>, carries the ground item \<open>i\<close>, and faces an in-bounds
  tile that holds a chest or a hub. \<open>credited s i\<close> counts these belts.\<close>

definition credits :: "GameState \<Rightarrow> int \<times> int \<Rightarrow> ItemType \<Rightarrow> bool" where
  "credits s p i \<longleftrightarrow>
     (case layoutAt s (fst p) (snd p) of
        Some (Some (k, d)) \<Rightarrow>
          k = Belt \<and> itemAt s (fst p) (snd p) = Some (Some i)
          \<and> (case stepInDir (fst p) (snd p) d of (nx, ny) \<Rightarrow>
               inBounds s nx ny
               \<and> (case layoutAt s nx ny of Some (Some (k', d')) \<Rightarrow> k' = Chest \<or> k' = Hub | _ \<Rightarrow> False))
      | _ \<Rightarrow> False)"

definition credited :: "GameState \<Rightarrow> ItemType \<Rightarrow> int" where
  "credited s i = int (length (filter (\<lambda>p. credits s p i) (scanOrder (width s) (height s))))"

text \<open>\<open>outputsTo s p q\<close>: a mine, a furnace, an assembler or a wire mill stands at \<open>p\<close> and faces
  \<open>q\<close>, the tile onto which it emits. \<open>pullsFrom s p q\<close>: a hub or a furnace stands at \<open>p\<close> and
  \<open>q\<close> is one of its four neighbours, from which a hub takes any item and a furnace takes ore.\<close>

definition outputsTo :: "GameState \<Rightarrow> int \<times> int \<Rightarrow> int \<times> int \<Rightarrow> bool" where
  "outputsTo s p q \<longleftrightarrow>
     (case layoutAt s (fst p) (snd p) of
        Some (Some (k, d)) \<Rightarrow>
          (k = Mine \<or> k = Furnace \<or> k = Assembler \<or> k = WireMill) \<and> stepInDir (fst p) (snd p) d = q
      | _ \<Rightarrow> False)"

definition pullsFrom :: "GameState \<Rightarrow> int \<times> int \<Rightarrow> int \<times> int \<Rightarrow> bool" where
  "pullsFrom s p q \<longleftrightarrow>
     (case layoutAt s (fst p) (snd p) of
        Some (Some (k, d)) \<Rightarrow>
          (k = Hub \<or> k = Furnace) \<and> q \<in> set (map (stepInDir (fst p) (snd p)) DIRECTIONS)
      | _ \<Rightarrow> False)"

section \<open>Example worlds\<close>

definition emptyTile :: Tile where
  "emptyTile = \<lparr>terrain = Empty, resource = 0, building = None\<rparr>"

definition zeroStats :: Stats where
  "zeroStats = \<lparr>ironMined = 0, copperMined = 0, ironPlates = 0, copperPlates = 0,
     gearsCrafted = 0, wiresCrafted = 0\<rparr>"

definition newBuilding :: "BuildingType \<Rightarrow> Direction \<Rightarrow> Building" where
  "newBuilding ty d = \<lparr>btype = ty, dir = d, progress = 0, buffer = createBuffer\<rparr>"

text \<open>The 3 by 3 world of the mine scenario: a mine at (1,1) facing right on an iron tile with
  one unit of resource, nothing else.\<close>

definition mineWorld :: GameState where
  "mineWorld = \<lparr>width = 3, height = 3, tick = 0,
     tiles = [[emptyTile, emptyTile, emptyTile],
              [emptyTile, \<lparr>terrain = Iron, resource = 1, building = Some (newBuilding Mine Right)\<rparr>, emptyTile],
              [emptyTile, emptyTile, emptyTile]],
     items = [[None, None, None], [None, None, None], [None, None, None]],
     inventory = createBuffer, stats = zeroStats\<rparr>"

text \<open>The mine world with the mine one tick short of a full cycle.\<close>

definition readyMineWorld :: GameState where
  "readyMineWorld = setTile mineWorld 1 1
     \<lparr>terrain = Iron, resource = 1, building = Some ((newBuilding Mine Right)\<lparr>progress := 3\<rparr>)\<rparr>"


text \<open>A 2 by 1 world with a starter inventory and no buildings.\<close>

definition starterWorld :: GameState where
  "starterWorld = \<lparr>width = 2, height = 1, tick = 0,
     tiles = [[emptyTile, emptyTile]],
     items = [[Some Gear, None]],
     inventory = \<lparr>iron_ore = 0, copper_ore = 0, iron_plate = 16, copper_plate = 8, gear = 4, wire = 0\<rparr>,
     stats = zeroStats\<rparr>"

text \<open>A 2 by 1 world whose assembler at (0,0), facing right, holds two iron plates and is one
  tick short of a full cycle.\<close>

definition gearWorld :: GameState where
  "gearWorld = \<lparr>width = 2, height = 1, tick = 0,
     tiles = [[\<lparr>terrain = Empty, resource = 0,
                 building = Some \<lparr>btype = Assembler, dir = Right, progress = 7,
                                  buffer = createBuffer\<lparr>iron_plate := 2\<rparr>\<rparr>\<rparr>,
               emptyTile]],
     items = [[None, None]],
     inventory = createBuffer, stats = zeroStats\<rparr>"

text \<open>A 3 by 1 world: a belt at (0,0) carries an iron plate to the right, towards a hub at
  (1,0).\<close>

definition hubWorld :: GameState where
  "hubWorld = \<lparr>width = 3, height = 1, tick = 5,
     tiles = [[\<lparr>terrain = Empty, resource = 0, building = Some (newBuilding Belt Right)\<rparr>,
               \<lparr>terrain = Empty, resource = 0, building = Some (newBuilding Hub Up)\<rparr>,
               emptyTile]],
     items = [[Some IronPlate, None, Some Gear]],
     inventory = createBuffer, stats = zeroStats\<rparr>"

text \<open>A 3 by 1 world: a belt at (0,0) carries iron ore to the right, towards an idle furnace
  at (1,0).\<close>

definition furnaceWorld :: GameState where
  "furnaceWorld = \<lparr>width = 3, height = 1, tick = 0,
     tiles = [[\<lparr>terrain = Empty, resource = 0, building = Some (newBuilding Belt Right)\<rparr>,
               \<lparr>terrain = Empty, resource = 0, building = Some ((newBuilding Furnace Right)\<lparr>progress := 2\<rparr>)\<rparr>,
               emptyTile]],
     items = [[Some IronOre, None, None]],
     inventory = createBuffer, stats = zeroStats\<rparr>"


text \<open>A 3 by 1 world: the belts at (0,0) and (2,0) both feed the free tile (1,0).\<close>

definition jamWorld :: GameState where
  "jamWorld = \<lparr>width = 3, height = 1, tick = 0,
     tiles = [[\<lparr>terrain = Empty, resource = 0, building = Some (newBuilding Belt Right)\<rparr>,
               emptyTile,
               \<lparr>terrain = Empty, resource = 0, building = Some (newBuilding Belt Left)\<rparr>]],
     items = [[Some IronOre, None, Some CopperOre]],
     inventory = createBuffer, stats = zeroStats\<rparr>"

text \<open>A 3 by 2 world: the belts at (0,0) and (2,0) both feed the belt at (1,0), which carries
  a gear down to the free tile (1,1).\<close>

definition crossingWorld :: GameState where
  "crossingWorld = \<lparr>width = 3, height = 2, tick = 0,
     tiles = [[\<lparr>terrain = Empty, resource = 0, building = Some (newBuilding Belt Right)\<rparr>,
               \<lparr>terrain = Empty, resource = 0, building = Some (newBuilding Belt Down)\<rparr>,
               \<lparr>terrain = Empty, resource = 0, building = Some (newBuilding Belt Left)\<rparr>],
              [emptyTile, emptyTile, emptyTile]],
     items = [[Some IronOre, Some Gear, Some CopperOre], [None, None, None]],
     inventory = createBuffer, stats = zeroStats\<rparr>"

text \<open>A stored snapshot of an older shape: legacy item kinds, a legacy terrain tag, legacy
  statistic names, and no tick.\<close>

definition legacySnapshot :: Snapshot where
  "legacySnapshot =
     \<lparr>snap_width = 2, snap_height = 2, snap_tick = None,
      snap_tiles = [[\<lparr>raw_terrain = Some ''ore'', raw_resource = None, raw_building = None\<rparr>,
                     \<lparr>raw_terrain = Some ''empty'', raw_resource = None, raw_building = None\<rparr>],
                    [\<lparr>raw_terrain = Some ''empty'', raw_resource = Some 0, raw_building = None\<rparr>,
                     \<lparr>raw_terrain = Some ''empty'', raw_resource = Some 0, raw_building = None\<rparr>]],
      snap_items = [[Some \<lparr>raw_kind = Some ''ore''\<rparr>, Some \<lparr>raw_kind = Some ''plate''\<rparr>],
                    [Some \<lparr>raw_kind = Some ''gear''\<rparr>, Some \<lparr>raw_kind = Some ''coal''\<rparr>]],
      snap_inventory = None,
      snap_stats = Some [''oreMined'' \<mapsto> 7, ''platesSmelted'' \<mapsto> 3]\<rparr>"

text \<open>Two 2 by 1 worlds with one belt at (0,0) that carries iron ore to the right: in the
  first the tile (1,0) is empty, in the second a gear lies on it.\<close>

definition loneBeltWorld :: GameState where
  "loneBeltWorld = \<lparr>width = 2, height = 1, tick = 0,
     tiles = [[\<lparr>terrain = Empty, resource = 0, building = Some (newBuilding Belt Right)\<rparr>, emptyTile]],
     items = [[Some IronOre, None]],
     inventory = createBuffer, stats = zeroStats\<rparr>"

definition blockedBeltWorld :: GameState where
  "blockedBeltWorld = \<lparr>width = 2, height = 1, tick = 0,
     tiles = [[\<lparr>terrain = Empty, resource = 0, building = Some (newBuilding Belt Right)\<rparr>, emptyTile]],
     items = [[Some IronOre, Some Gear]],
     inventory = createBuffer, stats = zeroStats\<rparr>"

text \<open>A 3 by 1 world: a mine at (2,0) on iron, one tick short of a full cycle, faces the belt at
  (1,0), which runs left into an idle furnace at (0,0).\<close>

definition smelterWorld :: GameState where
  "smelterWorld = \<lparr>width = 3, height = 1, tick = 0,
     tiles = [[\<lparr>terrain = Empty, resource = 0, building = Some (newBuilding Furnace Left)\<rparr>,
               \<lparr>terrain = Empty, resource = 0, building = Some (newBuilding Belt Left)\<rparr>,
               \<lparr>terrain = Iron, resource = 5, building = Some ((newBuilding Mine Left)\<lparr>progress := 3\<rparr>)\<rparr>]],
     items = [[None, None, None]],
     inventory = createBuffer, stats = zeroStats\<rparr>"

text \<open>The worlds that the production loop of one tick leaves from \<open>hubWorld\<close> and from
  \<open>smelterWorld\<close>: the hub has picked up the gear, the mine has put its ore on the belt.\<close>

definition hubBeltWorld :: GameState where
  "hubBeltWorld = \<lparr>width = 3, height = 1, tick = 6,
     tiles = [[\<lparr>terrain = Empty, resource = 0, building = Some (newBuilding Belt Right)\<rparr>,
               \<lparr>terrain = Empty, resource = 0, building = Some (newBuilding Hub Up)\<rparr>,
               emptyTile]],
     items = [[Some IronPlate, None, None]],
     inventory = createBuffer\<lparr>gear := 1\<rparr>, stats = zeroStats\<rparr>"

definition smelterBeltWorld :: GameState where
  "smelterBeltWorld = \<lparr>width = 3, height = 1, tick = 1,
     tiles = [[\<lparr>terrain = Empty, resource = 0, building = Some (newBuilding Furnace Left)\<rparr>,
               \<lparr>terrain = Empty, resource = 0, building = Some (newBuilding Belt Left)\<rparr>,
               \<lparr>terrain = Iron, resource = 4, building = Some (newBuilding Mine Left)\<rparr>]],
     items = [[None, Some IronOre, None]],
     inventory = createBuffer, stats = zeroStats\<lparr>ironMined := 1\<rparr>\<rparr>"

text \<open>A 3 by 1 world: the mines at (0,0), on iron, and at (2,0), on copper, both one tick short of
  a full cycle, face the free tile (1,0).\<close>

definition twoMineWorld :: GameState where
  "twoMineWorld = \<lparr>width = 3, height = 1, tick = 0,
     tiles = [[\<lparr>terrain = Iron, resource = 5, building = Some ((newBuilding Mine Right)\<lparr>progress := 3\<rparr>)\<rparr>,
               emptyTile,
               \<lparr>terrain = Copper, resource = 5, building = Some ((newBuilding Mine Left)\<lparr>progress := 3\<rparr>)\<rparr>]],
     items = [[None, None, None]],
     inventory = createBuffer, stats = zeroStats\<rparr>"

section \<open>Properties\<close>

subsection \<open>Cloning and grids\<close>


lemma cloneItemGrid_id [simp]: "cloneItemGrid g = g"
proof -
  have "(\<lambda>item. case item of Some i \<Rightarrow> Some i | None \<Rightarrow> None) = (\<lambda>item :: ItemType option. item)"
    by (rule ext) (simp split: option.splits)
  then show ?thesis by (simp add: cloneItemGrid_def)
qed

lemma cloneState_id [simp]: "cloneState s = s"
proof -
  have "(\<lambda>t. \<lparr>terrain = terrain t, resource = resource t,
           building = (case building t of
                Some b \<Rightarrow> Some \<lparr>btype = btype b, dir = dir b, progress = progress b, buffer = buffer b\<rparr>
              | None \<Rightarrow> None)\<rparr>) = (\<lambda>t :: Tile. t)"
    by (rule ext) (simp split: option.splits)
  then show ?thesis by (simp add: cloneState_def)
qed

lemma cell_setCell:
  "cell (setCell g x y v) x' y' = (if x' = x \<and> y' = y \<and> cell g x y \<noteq> None then Some v else cell g x' y')"
  by (auto simp: cell_def setCell_def nth_list_update nat_eq_iff)

lemma cell_setCell_same: "cell g x y = Some u \<Longrightarrow> cell (setCell g x y v) x y = Some v"
  by (simp add: cell_setCell)

lemma cell_setCell_other: "x' \<noteq> x \<or> y' \<noteq> y \<Longrightarrow> cell (setCell g x y v) x' y' = cell g x' y'"
  by (auto simp: cell_setCell)

lemma length_setCell [simp]: "length (setCell g x y v) = length g"
  by (simp add: setCell_def)

lemma length_nth_setCell [simp]: "length (setCell g x y v ! i) = length (g ! i)"
proof (cases "nat y < length g")
  case True
  then show ?thesis by (cases "i = nat y") (simp_all add: setCell_def)
next
  case False
  then show ?thesis by (simp add: setCell_def list_update_beyond)
qed

lemma gridShape_nth: "gridShape g w h \<longleftrightarrow> int (length g) = h \<and> (\<forall>i < length g. int (length (g ! i)) = w)"
  by (auto simp: gridShape_def all_set_conv_all_nth)

lemma gridShape_setCell [simp]: "gridShape (setCell g x y v) w h = gridShape g w h"
  by (simp add: gridShape_nth)

lemma gridShape_cell:
  "gridShape g w h \<Longrightarrow> (cell g x y \<noteq> None) = (0 \<le> x \<and> x < w \<and> 0 \<le> y \<and> y < h)"
  by (auto simp: gridShape_def cell_def)

lemma sum_list_update_int:
  "i < length xs \<Longrightarrow> sum_list (xs[i := v]) = sum_list xs - xs ! i + (v::int)"
  by (induction xs arbitrary: i) (auto split: nat.splits)

lemma gridSum_setCell:
  assumes "cell g x y = Some u"
  shows "gridSum f (setCell g x y v) = gridSum f g - f u + f v"
proof -
  from assms have y: "0 \<le> y" "nat y < length g" and x: "0 \<le> x" "nat x < length (g ! nat y)"
    and u: "u = g ! nat y ! nat x"
    by (auto simp: cell_def split: if_splits)
  have "gridSum f (setCell g x y v)
      = sum_list ((map (\<lambda>row. sum_list (map f row)) g)[nat y := sum_list (map f ((g ! nat y)[nat x := v]))])"
    using x y by (simp add: gridSum_def setCell_def map_update)
  also have "\<dots> = gridSum f g - sum_list (map f (g ! nat y)) + sum_list (map f ((g ! nat y)[nat x := v]))"
    using y by (simp add: sum_list_update_int gridSum_def)
  also have "sum_list (map f ((g ! nat y)[nat x := v])) = sum_list (map f (g ! nat y)) - f u + f v"
    using x u by (simp add: map_update sum_list_update_int)
  finally show ?thesis by simp
qed

subsection \<open>Reading and writing the world\<close>

lemma setTile_fields [simp]:
  "width (setTile s x y t) = width s" "height (setTile s x y t) = height s"
  "tick (setTile s x y t) = tick s" "items (setTile s x y t) = items s"
  "inventory (setTile s x y t) = inventory s" "stats (setTile s x y t) = stats s"
  by (simp_all add: setTile_def)

lemma setItem_fields [simp]:
  "width (setItem s x y i) = width s" "height (setItem s x y i) = height s"
  "tick (setItem s x y i) = tick s" "tiles (setItem s x y i) = tiles s"
  "inventory (setItem s x y i) = inventory s" "stats (setItem s x y i) = stats s"
  by (simp_all add: setItem_def)

lemma tileAt_simps [simp]:
  "tileAt (setTile s x y t) x' y' = (if x' = x \<and> y' = y \<and> tileAt s x y \<noteq> None then Some t else tileAt s x' y')"
  "tileAt (setItem s x y i) x' y' = tileAt s x' y'"
  "tileAt (s\<lparr>stats := st\<rparr>) x' y' = tileAt s x' y'"
  "tileAt (s\<lparr>inventory := c\<rparr>) x' y' = tileAt s x' y'"
  "tileAt (s\<lparr>tick := n\<rparr>) x' y' = tileAt s x' y'"
  "tileAt (s\<lparr>items := g\<rparr>) x' y' = tileAt s x' y'"
  by (simp_all add: tileAt_def setTile_def setItem_def cell_setCell)

lemma itemAt_simps [simp]:
  "itemAt (setItem s x y i) x' y' = (if x' = x \<and> y' = y \<and> itemAt s x y \<noteq> None then Some i else itemAt s x' y')"
  "itemAt (setTile s x y t) x' y' = itemAt s x' y'"
  "itemAt (s\<lparr>stats := st\<rparr>) x' y' = itemAt s x' y'"
  "itemAt (s\<lparr>inventory := c\<rparr>) x' y' = itemAt s x' y'"
  "itemAt (s\<lparr>tick := n\<rparr>) x' y' = itemAt s x' y'"
  by (simp_all add: itemAt_def setTile_def setItem_def cell_setCell)

lemma inBounds_simps [simp]:
  "inBounds (setTile s x y t) = inBounds s"
  "inBounds (setItem s x y i) = inBounds s"
  "inBounds (s\<lparr>stats := st\<rparr>) = inBounds s"
  "inBounds (s\<lparr>inventory := c\<rparr>) = inBounds s"
  "inBounds (s\<lparr>tick := n\<rparr>) = inBounds s"
  by (simp_all add: inBounds_def fun_eq_iff)

lemma validWorld_simps [simp]:
  "validWorld (setTile s x y t) = validWorld s"
  "validWorld (setItem s x y i) = validWorld s"
  "validWorld (s\<lparr>stats := st\<rparr>) = validWorld s"
  "validWorld (s\<lparr>inventory := c\<rparr>) = validWorld s"
  "validWorld (s\<lparr>tick := n\<rparr>) = validWorld s"
  by (simp_all add: validWorld_def setTile_def setItem_def)

lemma valid_tileAt: "validWorld s \<Longrightarrow> (tileAt s x y \<noteq> None) = inBounds s x y"
  using gridShape_cell [of "tiles s" "width s" "height s" x y]
  by (auto simp: validWorld_def tileAt_def inBounds_def)

lemma valid_itemAt: "validWorld s \<Longrightarrow> (itemAt s x y \<noteq> None) = inBounds s x y"
  using gridShape_cell [of "items s" "width s" "height s" x y]
  by (auto simp: validWorld_def itemAt_def inBounds_def)

lemma valid_tileAt_ex: "validWorld s \<Longrightarrow> inBounds s x y \<Longrightarrow> \<exists>t. tileAt s x y = Some t"
  using valid_tileAt by auto

lemma valid_itemAt_ex: "validWorld s \<Longrightarrow> inBounds s x y \<Longrightarrow> \<exists>i. itemAt s x y = Some i"
  using valid_itemAt by auto

lemma canPlaceItem_ok: "validWorld s \<Longrightarrow> canPlaceItem s x y \<noteq> None"
proof (cases "inBounds s x y")
  case True
  assume "validWorld s"
  with True obtain t i where "tileAt s x y = Some t" "itemAt s x y = Some i"
    using valid_tileAt_ex valid_itemAt_ex by blast
  then show ?thesis by (simp add: canPlaceItem_def del: not_None_eq)
next
  case False
  then show ?thesis by (simp add: canPlaceItem_def del: not_None_eq)
qed

lemma canPlaceItem_True:
  "canPlaceItem s x y = Some True \<Longrightarrow> itemAt s x y = Some None \<and> inBounds s x y"
  by (auto simp: canPlaceItem_def split: if_splits Option.bind_splits)

lemma findNeighborWith_ok: "validWorld s \<Longrightarrow> findNeighborWith P s x y ds \<noteq> None"
proof (induction ds)
  case Nil
  then show ?case by simp
next
  case (Cons d ds)
  obtain nx ny where n: "stepInDir x y d = (nx, ny)" by (cases "stepInDir x y d")
  show ?case
  proof (cases "inBounds s nx ny")
    case True
    with Cons.prems obtain i where "itemAt s nx ny = Some i" using valid_itemAt_ex by blast
    with Cons True n show ?thesis by (simp split: option.splits)
  next
    case False
    with Cons n show ?thesis by simp
  qed
qed

lemma findNeighborWith_Some:
  "findNeighborWith P s x y ds = Some (Some (nx, ny)) \<Longrightarrow>
     \<exists>item. itemAt s nx ny = Some (Some item) \<and> P item \<and> inBounds s nx ny"
proof (induction ds)
  case Nil
  then show ?case by simp
next
  case (Cons d ds)
  then show ?case
    by (cases "stepInDir x y d") (auto split: if_splits option.splits Option.bind_splits)
qed


subsection \<open>Every tile step succeeds on a valid world and keeps its frame\<close>

lemma sameFrame_refl [simp]: "sameFrame s s"
  by (simp add: sameFrame_def)

lemma sameFrame_trans: "sameFrame s s' \<Longrightarrow> sameFrame s' s'' \<Longrightarrow> sameFrame s s''"
  by (simp add: sameFrame_def)

lemma sameFrame_simps [simp]:
  "sameFrame s (setTile s' x y t) = sameFrame s s'"
  "sameFrame s (setItem s' x y i) = sameFrame s s'"
  "sameFrame s (s'\<lparr>stats := st\<rparr>) = sameFrame s s'"
  "sameFrame s (s'\<lparr>inventory := c\<rparr>) = sameFrame s s'"
  by (simp_all add: sameFrame_def)

lemmas neighbor_defs = findNeighborItem_def findNeighborItemByTypes_def findNeighborItemAny_def

lemma stepMine_ok: "validWorld s \<Longrightarrow> stepMine s x y t b \<noteq> None"
  by (simp add: stepMine_def Let_def canPlaceItem_ok del: not_None_eq split: prod.splits Option.bind_splits)

lemma stepMine_frame: "stepMine s x y t b = Some s' \<Longrightarrow> sameFrame s s'"
  by (auto simp: stepMine_def Let_def split: if_splits prod.splits Option.bind_splits)

lemma stepFurnace_ok: "validWorld s \<Longrightarrow> stepFurnace s x y t b \<noteq> None"
  by (auto simp: stepFurnace_def neighbor_defs Let_def canPlaceItem_ok findNeighborWith_ok
      simp del: not_None_eq dest!: findNeighborWith_Some split: prod.splits option.splits Option.bind_splits)

lemma stepFurnace_frame: "stepFurnace s x y t b = Some s' \<Longrightarrow> sameFrame s s'"
  by (auto simp: stepFurnace_def Let_def split: if_splits prod.splits option.splits Option.bind_splits)

lemma stepAssembler_ok: "validWorld s \<Longrightarrow> stepAssembler s x y t b \<noteq> None"
  by (auto simp: stepAssembler_def neighbor_defs Let_def canPlaceItem_ok findNeighborWith_ok
      simp del: not_None_eq dest!: findNeighborWith_Some split: prod.splits option.splits Option.bind_splits)

lemma stepAssembler_frame: "stepAssembler s x y t b = Some s' \<Longrightarrow> sameFrame s s'"
  by (auto simp: stepAssembler_def Let_def split: if_splits prod.splits option.splits Option.bind_splits)

lemma stepWireMill_ok: "validWorld s \<Longrightarrow> stepWireMill s x y t b \<noteq> None"
  by (auto simp: stepWireMill_def neighbor_defs Let_def canPlaceItem_ok findNeighborWith_ok
      simp del: not_None_eq dest!: findNeighborWith_Some split: prod.splits option.splits Option.bind_splits)

lemma stepWireMill_frame: "stepWireMill s x y t b = Some s' \<Longrightarrow> sameFrame s s'"
  by (auto simp: stepWireMill_def Let_def split: if_splits prod.splits option.splits Option.bind_splits)

lemma stepHub_ok: "validWorld s \<Longrightarrow> stepHub s x y \<noteq> None"
  by (auto simp: stepHub_def neighbor_defs Let_def findNeighborWith_ok
      simp del: not_None_eq dest!: findNeighborWith_Some split: prod.splits option.splits Option.bind_splits)

lemma stepHub_frame: "stepHub s x y = Some s' \<Longrightarrow> sameFrame s s'"
  by (auto simp: stepHub_def Let_def split: if_splits prod.splits option.splits Option.bind_splits)

lemma stepTile_ok: "validWorld s \<Longrightarrow> inBounds s x y \<Longrightarrow> stepTile x y s \<noteq> None"
proof -
  assume v: "validWorld s" and "inBounds s x y"
  then obtain t where "tileAt s x y = Some t" using valid_tileAt_ex by blast
  with v show ?thesis
    by (simp add: stepTile_def stepMine_ok stepFurnace_ok stepAssembler_ok stepWireMill_ok stepHub_ok
        del: not_None_eq split: option.splits BuildingType.splits)
qed

lemma stepTile_frame: "stepTile x y s = Some s' \<Longrightarrow> sameFrame s s'"
  using stepMine_frame stepFurnace_frame stepAssembler_frame stepWireMill_frame stepHub_frame
  by (auto simp: stepTile_def split: option.splits BuildingType.splits Option.bind_splits)


subsection \<open>Placement\<close>

lemma affordAll_iff: "affordAll c cs \<longleftrightarrow> (\<forall>(item, needed) \<in> set cs. count_of c item \<ge> needed)"
  by (induction cs) (auto split: if_splits)

lemma count_of_add_count: "count_of (add_count c k n) k' = (if k' = k then count_of c k + n else count_of c k')"
  by (cases k; cases k'; simp)

lemma count_of_spend: "count_of (spendAll c (BUILD_COSTS t)) k = count_of c k - buildCost t k"
  by (cases t; cases k; simp add: BUILD_COSTS_def buildCost_def)

text \<open>
  Claim C5. When the inventory cannot afford building type \<open>T\<close>, \<open>placeBuilding\<close> returns the
  input world. When it can and \<open>(x, y)\<close> is in bounds of a valid world, the result has every
  amount of the cost table of \<open>T\<close> deducted from the inventory and, at \<open>(x, y)\<close>, a building of
  type \<open>T\<close> with the given direction, progress 0 and the all-zero buffer. \<open>canAffordBuild\<close>
  holds exactly when the inventory has at least the amount of every entry of the cost table.
\<close>

theorem placeBuilding_afford:
  "(\<not> canAffordBuild w T \<longrightarrow> placeBuilding w x y (Build T) d = Some w)
   \<and> (canAffordBuild w T \<and> validWorld w \<and> inBounds w x y \<longrightarrow>
        (\<exists>w' t'. placeBuilding w x y (Build T) d = Some w'
           \<and> (\<forall>k. count_of (inventory w') k = count_of (inventory w) k - buildCost T k)
           \<and> tileAt w' x y = Some t'
           \<and> building t' = Some \<lparr>btype = T, dir = d, progress = 0, buffer = createBuffer\<rparr>))
   \<and> (canAffordBuild w T \<longleftrightarrow>
        (\<forall>(item, amount) \<in> set (BUILD_COSTS T). count_of (inventory w) item \<ge> amount))"
proof (intro conjI impI)
  assume "\<not> canAffordBuild w T"
  then show "placeBuilding w x y (Build T) d = Some w"
    by (simp add: placeBuilding_def)
next
  assume a: "canAffordBuild w T \<and> validWorld w \<and> inBounds w x y"
  then obtain t i where t: "tileAt w x y = Some t" and i: "itemAt w x y = Some i"
    using valid_tileAt_ex valid_itemAt_ex by blast
  from a have nb: "\<not> (x < 0 \<or> y < 0 \<or> x \<ge> width w \<or> y \<ge> height w)"
    by (auto simp: inBounds_def)
  show "\<exists>w' t'. placeBuilding w x y (Build T) d = Some w'
           \<and> (\<forall>k. count_of (inventory w') k = count_of (inventory w) k - buildCost T k)
           \<and> tileAt w' x y = Some t'
           \<and> building t' = Some \<lparr>btype = T, dir = d, progress = 0, buffer = createBuffer\<rparr>"
    using a t i nb
    by (simp add: placeBuilding_def spendBuildCost_def count_of_spend Let_def)
next
  show "canAffordBuild w T \<longleftrightarrow>
        (\<forall>(item, amount) \<in> set (BUILD_COSTS T). count_of (inventory w) item \<ge> amount)"
    by (simp add: canAffordBuild_def affordAll_iff)
qed

theorem placeBuilding_afford_witness:
  "\<not> canAffordBuild (starterWorld\<lparr>inventory := createBuffer\<rparr>) Belt
   \<and> placeBuilding (starterWorld\<lparr>inventory := createBuffer\<rparr>) 0 0 (Build Belt) Right
       = Some (starterWorld\<lparr>inventory := createBuffer\<rparr>)
   \<and> canAffordBuild starterWorld Mine \<and> validWorld starterWorld \<and> inBounds starterWorld 0 0
   \<and> (\<exists>w' t'. placeBuilding starterWorld 0 0 (Build Mine) Right = Some w'
           \<and> count_of (inventory w') IronPlate = 12 \<and> count_of (inventory w') Gear = 2
           \<and> tileAt w' 0 0 = Some t'
           \<and> building t' = Some \<lparr>btype = Mine, dir = Right, progress = 0, buffer = createBuffer\<rparr>)"
proof -
  have n: "\<not> canAffordBuild (starterWorld\<lparr>inventory := createBuffer\<rparr>) Belt"
    by (simp add: canAffordBuild_def BUILD_COSTS_def createBuffer_def)
  have "\<forall>(item, amount) \<in> set (BUILD_COSTS Mine). count_of (inventory starterWorld) item \<ge> amount"
    by (simp add: BUILD_COSTS_def starterWorld_def)
  with placeBuilding_afford [of starterWorld Mine 0 0 Right]
  have "canAffordBuild starterWorld Mine" by blast
  moreover have "validWorld starterWorld \<and> inBounds starterWorld 0 0"
    by (simp add: starterWorld_def validWorld_def gridShape_def inBounds_def)
  ultimately have a: "canAffordBuild starterWorld Mine \<and> validWorld starterWorld \<and> inBounds starterWorld 0 0"
    by simp
  have c: "count_of (inventory starterWorld) IronPlate - buildCost Mine IronPlate = 12"
      "count_of (inventory starterWorld) Gear - buildCost Mine Gear = 2"
    by (simp_all add: starterWorld_def buildCost_def BUILD_COSTS_def)
  from placeBuilding_afford [of "starterWorld\<lparr>inventory := createBuffer\<rparr>" Belt 0 0 Right] n
  have 1: "placeBuilding (starterWorld\<lparr>inventory := createBuffer\<rparr>) 0 0 (Build Belt) Right
       = Some (starterWorld\<lparr>inventory := createBuffer\<rparr>)" by blast
  from placeBuilding_afford [of starterWorld Mine 0 0 Right] a
  obtain w' t' where "placeBuilding starterWorld 0 0 (Build Mine) Right = Some w'"
      "\<forall>k. count_of (inventory w') k = count_of (inventory starterWorld) k - buildCost Mine k"
      "tileAt w' 0 0 = Some t'"
      "building t' = Some \<lparr>btype = Mine, dir = Right, progress = 0, buffer = createBuffer\<rparr>"
    by blast
  with c have "\<exists>w' t'. placeBuilding starterWorld 0 0 (Build Mine) Right = Some w'
           \<and> count_of (inventory w') IronPlate = 12 \<and> count_of (inventory w') Gear = 2
           \<and> tileAt w' 0 0 = Some t'
           \<and> building t' = Some \<lparr>btype = Mine, dir = Right, progress = 0, buffer = createBuffer\<rparr>"
    by metis
  with n 1 a show ?thesis by blast
qed

subsection \<open>Snapshot normalisation\<close>

lemma normalizeBuffer_idem: "normalizeBuffer (normalizeBuffer buf) = normalizeBuffer buf"
  by (rule ext) (simp add: normalizeBuffer_def addTo_def rawBuffer_def coalesce_def Let_def)

lemma normalizeItemType_idem:
  "normalizeItemType ty = Some ty' \<Longrightarrow> normalizeItemType (Some ty') = Some ty'"
  by (auto simp: normalizeItemType_def split: if_splits)

lemma normalizeItem_idem: "normalizeItem (normalizeItem i) = normalizeItem i"
  by (auto simp: normalizeItem_def dest: normalizeItemType_idem split: option.splits)

lemma normalizeTile_idem: "normalizeTile (normalizeTile t) = normalizeTile t"
  by (simp add: normalizeTile_def normalizeTerrain_def normalizeBuilding_def coalesce_def
      normalizeBuffer_idem split: option.splits)

lemma normalizeStats_idem: "normalizeStats (Some (normalizeStats st)) = normalizeStats st"
  by (simp add: normalizeStats_def field_def coalesce_def)

text \<open>
  Claim C8. Normalising a snapshot that is already normalised changes nothing: for every
  snapshot \<open>w\<close>, \<open>normalizeState (normalizeState w)\<close> equals \<open>normalizeState w\<close>.
\<close>

theorem normalizeState_idempotent: "normalizeState (normalizeState w) = normalizeState w"
  by (simp add: normalizeState_def normalizeInventory_def coalesce_def normalizeBuffer_idem
      normalizeStats_idem normalizeTile_idem normalizeItem_idem comp_def)

subsection \<open>Legacy tags\<close>

lemma cell_map: "cell (map (\<lambda>row. map f row) g) x y = map_option f (cell g x y)"
  by (auto simp: cell_def)

text \<open>
  Claim C9. \<open>normalizeState\<close> remaps legacy tags. A ground item of kind "ore" becomes
  iron-ore, "plate" becomes iron-plate, "gear" stays gear, the five other current kinds are
  kept, and an item of any other kind is dropped (its slot becomes empty). A terrain tag "ore"
  becomes "iron". The statistic ironMined is the stored ironMined, or else the stored oreMined,
  or else 0; ironPlates is the stored ironPlates, or else platesSmelted, or else 0; each other
  statistic is the stored one or else 0.
\<close>

theorem normalizeState_legacy:
  "(cell (snap_items w) x y = Some (Some i) \<longrightarrow>
      cell (snap_items (normalizeState w)) x y = Some
        (if raw_kind i = Some ''ore'' then Some \<lparr>raw_kind = Some ''iron-ore''\<rparr>
         else if raw_kind i = Some ''plate'' then Some \<lparr>raw_kind = Some ''iron-plate''\<rparr>
         else if raw_kind i = Some ''gear'' then Some \<lparr>raw_kind = Some ''gear''\<rparr>
         else if raw_kind i \<in> {Some ''iron-ore'', Some ''copper-ore'', Some ''iron-plate'',
                                Some ''copper-plate'', Some ''wire''}
              then Some \<lparr>raw_kind = raw_kind i\<rparr>
         else None))
   \<and> (cell (snap_tiles w) x y = Some t \<and> raw_terrain t = Some ''ore'' \<longrightarrow>
        (\<exists>t'. cell (snap_tiles (normalizeState w)) x y = Some t' \<and> raw_terrain t' = Some ''iron''))
   \<and> (\<exists>st. snap_stats (normalizeState w) = Some st
        \<and> st ''ironMined'' = Some (case field (snap_stats w) ''ironMined'' of
              Some v \<Rightarrow> v
            | None \<Rightarrow> (case field (snap_stats w) ''oreMined'' of Some v \<Rightarrow> v | None \<Rightarrow> 0))
        \<and> st ''ironPlates'' = Some (case field (snap_stats w) ''ironPlates'' of
              Some v \<Rightarrow> v
            | None \<Rightarrow> (case field (snap_stats w) ''platesSmelted'' of Some v \<Rightarrow> v | None \<Rightarrow> 0))
        \<and> (\<forall>k \<in> {''copperMined'', ''copperPlates'', ''gearsCrafted'', ''wiresCrafted''}.
              st k = Some (case field (snap_stats w) k of Some v \<Rightarrow> v | None \<Rightarrow> 0)))"
proof (intro conjI impI)
  assume "cell (snap_items w) x y = Some (Some i)"
  then show "cell (snap_items (normalizeState w)) x y = Some
        (if raw_kind i = Some ''ore'' then Some \<lparr>raw_kind = Some ''iron-ore''\<rparr>
         else if raw_kind i = Some ''plate'' then Some \<lparr>raw_kind = Some ''iron-plate''\<rparr>
         else if raw_kind i = Some ''gear'' then Some \<lparr>raw_kind = Some ''gear''\<rparr>
         else if raw_kind i \<in> {Some ''iron-ore'', Some ''copper-ore'', Some ''iron-plate'',
                                Some ''copper-plate'', Some ''wire''}
              then Some \<lparr>raw_kind = raw_kind i\<rparr>
         else None)"
    by (auto simp: normalizeState_def cell_map normalizeItem_def normalizeItemType_def)
next
  assume "cell (snap_tiles w) x y = Some t \<and> raw_terrain t = Some ''ore''"
  then show "\<exists>t'. cell (snap_tiles (normalizeState w)) x y = Some t' \<and> raw_terrain t' = Some ''iron''"
    by (simp add: normalizeState_def cell_map normalizeTile_def normalizeTerrain_def)
next
  show "\<exists>st. snap_stats (normalizeState w) = Some st
        \<and> st ''ironMined'' = Some (case field (snap_stats w) ''ironMined'' of
              Some v \<Rightarrow> v
            | None \<Rightarrow> (case field (snap_stats w) ''oreMined'' of Some v \<Rightarrow> v | None \<Rightarrow> 0))
        \<and> st ''ironPlates'' = Some (case field (snap_stats w) ''ironPlates'' of
              Some v \<Rightarrow> v
            | None \<Rightarrow> (case field (snap_stats w) ''platesSmelted'' of Some v \<Rightarrow> v | None \<Rightarrow> 0))
        \<and> (\<forall>k \<in> {''copperMined'', ''copperPlates'', ''gearsCrafted'', ''wiresCrafted''}.
              st k = Some (case field (snap_stats w) k of Some v \<Rightarrow> v | None \<Rightarrow> 0))"
    by (simp add: normalizeState_def normalizeStats_def coalesce_def)
qed

theorem normalizeState_legacy_witness:
  "cell (snap_items legacySnapshot) 0 0 = Some (Some \<lparr>raw_kind = Some ''ore''\<rparr>)
   \<and> cell (snap_items (normalizeState legacySnapshot)) 0 0 = Some (Some \<lparr>raw_kind = Some ''iron-ore''\<rparr>)
   \<and> cell (snap_items legacySnapshot) 1 1 = Some (Some \<lparr>raw_kind = Some ''coal''\<rparr>)
   \<and> cell (snap_items (normalizeState legacySnapshot)) 1 1 = Some None
   \<and> cell (snap_tiles legacySnapshot) 0 0
        = Some \<lparr>raw_terrain = Some ''ore'', raw_resource = None, raw_building = None\<rparr>
   \<and> (\<exists>t'. cell (snap_tiles (normalizeState legacySnapshot)) 0 0 = Some t' \<and> raw_terrain t' = Some ''iron'')
   \<and> (\<exists>st. snap_stats (normalizeState legacySnapshot) = Some st
        \<and> st ''ironMined'' = Some 7 \<and> st ''ironPlates'' = Some 3 \<and> st ''copperMined'' = Some 0)"
proof -
  let ?ore = "\<lparr>raw_kind = Some ''ore''\<rparr>" and ?coal = "\<lparr>raw_kind = Some ''coal''\<rparr>"
  let ?t = "\<lparr>raw_terrain = Some ''ore'', raw_resource = None, raw_building = None\<rparr>"
  have a: "cell (snap_items legacySnapshot) 0 0 = Some (Some ?ore)"
    and b: "cell (snap_items legacySnapshot) 1 1 = Some (Some ?coal)"
    and c: "cell (snap_tiles legacySnapshot) 0 0 = Some ?t"
    by (simp_all add: legacySnapshot_def cell_def)
  have f: "field (snap_stats legacySnapshot) ''ironMined'' = None"
      "field (snap_stats legacySnapshot) ''oreMined'' = Some 7"
      "field (snap_stats legacySnapshot) ''ironPlates'' = None"
      "field (snap_stats legacySnapshot) ''platesSmelted'' = Some 3"
      "field (snap_stats legacySnapshot) ''copperMined'' = None"
    by (simp_all add: legacySnapshot_def field_def)
  from normalizeState_legacy [of legacySnapshot 0 0 ?ore ?t] a c
  have 1: "cell (snap_items (normalizeState legacySnapshot)) 0 0 = Some (Some \<lparr>raw_kind = Some ''iron-ore''\<rparr>)"
    and 2: "\<exists>t'. cell (snap_tiles (normalizeState legacySnapshot)) 0 0 = Some t' \<and> raw_terrain t' = Some ''iron''"
    by simp_all
  from normalizeState_legacy [of legacySnapshot 1 1 ?coal ?t] b f
  have 3: "cell (snap_items (normalizeState legacySnapshot)) 1 1 = Some None"
    and 4: "\<exists>st. snap_stats (normalizeState legacySnapshot) = Some st
        \<and> st ''ironMined'' = Some 7 \<and> st ''ironPlates'' = Some 3 \<and> st ''copperMined'' = Some 0"
    by auto
  from a b c 1 2 3 4 show ?thesis by simp
qed

subsection \<open>Loop invariants\<close>

lemma forEach_append: "forEach (as @ bs) f s = Option.bind (forEach as f s) (forEach bs f)"
  by (induction as arbitrary: s) (auto split: option.splits)

lemma forEach_map: "forEach (map g as) f s = forEach as (\<lambda>a. f (g a)) s"
  by (induction as arbitrary: s) (auto split: option.splits)

lemma forEach_concat:
  "forEach ys (\<lambda>y. forEach (g y) (f y)) s = forEach (concat (map (\<lambda>y. map (\<lambda>x. (x, y)) (g y)) ys)) (\<lambda>(x, y). f y x) s"
proof (induction ys arbitrary: s)
  case Nil
  then show ?case by simp
next
  case (Cons y ys)
  show ?case
    by (cases "forEach (g y) (f y) s") (simp_all add: forEach_append forEach_map Cons.IH)
qed

lemma forEach_scanOrder:
  "forEach [0..h - 1] (\<lambda>y. forEach [0..w - 1] (\<lambda>x. f x y)) s = forEach (scanOrder w h) (\<lambda>(x, y). f x y) s"
  unfolding scanOrder_def by (rule forEach_concat [where g = "\<lambda>_. [0..w - 1]" and f = "\<lambda>y x. f x y"])

lemma set_scanOrder: "(x, y) \<in> set (scanOrder w h) \<longleftrightarrow> 0 \<le> x \<and> x < w \<and> 0 \<le> y \<and> y < h"
  by (auto simp: scanOrder_def image_iff)

lemma before_irrefl [simp]: "\<not> before p p"
  by (simp add: before_def)

lemma before_asym: "before p q \<Longrightarrow> \<not> before q p"
  by (auto simp: before_def)

lemma sorted_scanOrder_aux:
  "sorted_wrt (<) ys \<Longrightarrow> sorted_wrt (<) xs \<Longrightarrow>
     sorted_wrt before (concat (map (\<lambda>y. map (\<lambda>x. (x, y)) xs) ys))"
proof (induction ys)
  case Nil
  then show ?case by simp
next
  case (Cons y ys)
  have 1: "sorted_wrt before (map (\<lambda>x. (x, y)) xs)"
    using Cons.prems(2) by (simp add: sorted_wrt_map before_def)
  have 2: "sorted_wrt before (concat (map (\<lambda>y. map (\<lambda>x. (x, y)) xs) ys))"
    using Cons by simp
  have 3: "\<forall>p \<in> set (map (\<lambda>x. (x, y)) xs). \<forall>q \<in> set (concat (map (\<lambda>y. map (\<lambda>x. (x, y)) xs) ys)). before p q"
    using Cons.prems(1) by (auto simp: before_def)
  show ?case using 1 2 3 by (simp add: sorted_wrt_append)
qed

lemma sorted_scanOrder: "sorted_wrt before (scanOrder w h)"
  unfolding scanOrder_def
  by (rule sorted_scanOrder_aux) simp_all

lemma sorted_wrt_before_distinct: "sorted_wrt before ps \<Longrightarrow> distinct ps"
  by (induction ps) auto

lemma distinct_scanOrder: "distinct (scanOrder w h)"
  using sorted_scanOrder by (rule sorted_wrt_before_distinct)

lemma scanOrder_split:
  assumes "scanOrder w h = pre @ p # post"
  shows "p \<notin> set pre" and "p \<notin> set post"
    and "q \<in> set pre \<Longrightarrow> before q p" and "q \<in> set post \<Longrightarrow> before p q"
  using distinct_scanOrder [of w h] sorted_scanOrder [of w h]
  unfolding assms by (auto simp: sorted_wrt_append)

lemma forEach_invariant_prefix_aux:
  assumes step: "\<And>pre a post s. as0 = pre @ a # post \<Longrightarrow> I pre s \<Longrightarrow> \<exists>s'. f a s = Some s' \<and> I (pre @ [a]) s'"
  shows "as0 = pre @ as \<Longrightarrow> I pre s \<Longrightarrow> \<exists>s'. forEach as f s = Some s' \<and> I as0 s'"
proof (induction as arbitrary: pre s)
  case Nil
  then show ?case by simp
next
  case (Cons a as)
  from step [OF Cons.prems] obtain s1 where s1: "f a s = Some s1" "I (pre @ [a]) s1" by blast
  have "\<exists>s'. forEach as f s1 = Some s' \<and> I as0 s'"
    by (rule Cons.IH [of "pre @ [a]"]) (simp_all add: Cons.prems s1)
  with s1 show ?case by simp
qed

lemma forEach_invariant_prefix:
  assumes "I [] s"
    and "\<And>pre a post s. as = pre @ a # post \<Longrightarrow> I pre s \<Longrightarrow> \<exists>s'. f a s = Some s' \<and> I (pre @ [a]) s'"
  shows "\<exists>s'. forEach as f s = Some s' \<and> I as s'"
  using forEach_invariant_prefix_aux [of as I f "[]" as s] assms by simp

lemma grid_loop_invariant:
  assumes "I [] s"
    and "\<And>pre x y post s. scanOrder w h = pre @ (x, y) # post \<Longrightarrow> I pre s
            \<Longrightarrow> \<exists>s'. f x y s = Some s' \<and> I (pre @ [(x, y)]) s'"
  shows "\<exists>s'. forEach [0..h - 1] (\<lambda>y. forEach [0..w - 1] (\<lambda>x. f x y)) s = Some s'
            \<and> I (scanOrder w h) s'"
  unfolding forEach_scanOrder
proof (rule forEach_invariant_prefix [where I = I])
  show "I [] s" by (rule assms(1))
next
  fix pre a post s1
  assume "scanOrder w h = pre @ a # post" and "I pre s1"
  then show "\<exists>s'. (case a of (x, y) \<Rightarrow> f x y) s1 = Some s' \<and> I (pre @ [a]) s'"
    using assms(2) [of pre "fst a" "snd a" post s1] by (cases a) simp
qed

subsection \<open>Counting items\<close>

lemma sumCounts_add_count [simp]: "sumCounts (add_count c k n) = sumCounts c + n"
  by (cases k) (simp_all add: sumCounts_def)

lemma sumCounts_update [simp]:
  "sumCounts (c\<lparr>iron_ore := v\<rparr>) = sumCounts c - iron_ore c + v"
  "sumCounts (c\<lparr>copper_ore := v\<rparr>) = sumCounts c - copper_ore c + v"
  "sumCounts (c\<lparr>iron_plate := v\<rparr>) = sumCounts c - iron_plate c + v"
  "sumCounts (c\<lparr>copper_plate := v\<rparr>) = sumCounts c - copper_plate c + v"
  "sumCounts (c\<lparr>gear := v\<rparr>) = sumCounts c - gear c + v"
  "sumCounts (c\<lparr>wire := v\<rparr>) = sumCounts c - wire c + v"
  by (simp_all add: sumCounts_def)

lemma setCell_outside: "cell g x y = None \<Longrightarrow> setCell g x y v = g"
proof (cases "0 \<le> y \<and> 0 \<le> x \<and> nat y < length g")
  case True
  moreover assume "cell g x y = None"
  ultimately have "length (g ! nat y) \<le> nat x" by (auto simp: cell_def split: if_splits)
  then have "(g ! nat y)[nat x := v] = g ! nat y" by (rule list_update_beyond)
  then show ?thesis by (simp add: setCell_def)
next
  case False
  then show ?thesis by (auto simp: setCell_def list_update_beyond)
qed

lemma gridSum_setCell_case:
  "gridSum f (setCell g x y v) = (case cell g x y of None \<Rightarrow> gridSum f g | Some u \<Rightarrow> gridSum f g - f u + f v)"
  by (simp add: gridSum_setCell setCell_outside split: option.splits)

lemma groundItems_simps [simp]:
  "groundItems (setItem s x y i) =
     (case itemAt s x y of None \<Rightarrow> groundItems s | Some old \<Rightarrow> groundItems s - slotCount old + slotCount i)"
  "groundItems (setTile s x y t) = groundItems s"
  "groundItems (s\<lparr>stats := st\<rparr>) = groundItems s"
  "groundItems (s\<lparr>inventory := c\<rparr>) = groundItems s"
  "groundItems (s\<lparr>tick := n\<rparr>) = groundItems s"
  by (simp_all add: groundItems_def setItem_def setTile_def itemAt_def gridSum_setCell_case
      split: option.splits)

lemma bufferedItems_simps [simp]:
  "bufferedItems (setTile s x y t) =
     (case tileAt s x y of None \<Rightarrow> bufferedItems s | Some old \<Rightarrow> bufferedItems s - tileBuffer old + tileBuffer t)"
  "bufferedItems (setItem s x y i) = bufferedItems s"
  "bufferedItems (s\<lparr>stats := st\<rparr>) = bufferedItems s"
  "bufferedItems (s\<lparr>inventory := c\<rparr>) = bufferedItems s"
  "bufferedItems (s\<lparr>tick := n\<rparr>) = bufferedItems s"
  "bufferedItems (s\<lparr>items := g\<rparr>) = bufferedItems s"
  by (simp_all add: bufferedItems_def setItem_def setTile_def tileAt_def gridSum_setCell_case
      split: option.splits)

lemmas ticks_defs = MINE_TICKS_def FURNACE_TICKS_def ASSEMBLER_TICKS_def WIRE_MILL_TICKS_def

lemmas balance_defs = balance_def totalItems_def tileBuffer_def slotCount_def ticks_defs

lemma stepMine_balance:
  "tileAt s x y = Some t \<Longrightarrow> building t = Some b \<Longrightarrow> stepMine s x y t b = Some s' \<Longrightarrow> balance s' = balance s"
  by (auto simp: stepMine_def Let_def balance_defs dest!: canPlaceItem_True
      split: if_splits prod.splits Option.bind_splits)

lemma stepFurnace_balance:
  "tileAt s x y = Some t \<Longrightarrow> building t = Some b \<Longrightarrow> stepFurnace s x y t b = Some s' \<Longrightarrow> balance s' = balance s"
  by (auto simp: stepFurnace_def Let_def balance_defs neighbor_defs dest!: canPlaceItem_True findNeighborWith_Some
      split: if_splits prod.splits option.splits Option.bind_splits)

lemma stepAssembler_balance:
  "tileAt s x y = Some t \<Longrightarrow> building t = Some b \<Longrightarrow> stepAssembler s x y t b = Some s' \<Longrightarrow> balance s' = balance s"
  by (auto simp: stepAssembler_def Let_def balance_defs neighbor_defs dest!: canPlaceItem_True findNeighborWith_Some
      split: if_splits prod.splits option.splits Option.bind_splits)

lemma stepWireMill_balance:
  "tileAt s x y = Some t \<Longrightarrow> building t = Some b \<Longrightarrow> stepWireMill s x y t b = Some s' \<Longrightarrow> balance s' = balance s"
  by (auto simp: stepWireMill_def Let_def balance_defs neighbor_defs dest!: canPlaceItem_True findNeighborWith_Some
      split: if_splits prod.splits option.splits Option.bind_splits)

lemma stepHub_balance:
  "stepHub s x y = Some s' \<Longrightarrow> balance s' = balance s"
  by (auto simp: stepHub_def Let_def balance_defs neighbor_defs dest!: findNeighborWith_Some
      split: if_splits prod.splits option.splits Option.bind_splits)

lemma stepTile_balance: "stepTile x y s = Some s' \<Longrightarrow> balance s' = balance s"
  using stepMine_balance stepFurnace_balance stepAssembler_balance stepWireMill_balance stepHub_balance
  by (auto simp: stepTile_def split: option.splits BuildingType.splits Option.bind_splits)

subsection \<open>One step of the belt loop\<close>

lemma deliver_cases:
  assumes "deliver s m x y item nx ny dt db = (s', m')"
  obtains (credit) "btype db = Chest \<or> btype db = Hub"
      "s' = s\<lparr>inventory := add_count (inventory s) item 1\<rparr>" "m' = setCell m x y None"
  | (accept) "btype db = Furnace \<or> btype db = Assembler \<or> btype db = WireMill"
      "s' = setTile s nx ny (dt\<lparr>building := Some (db\<lparr>buffer := add_count (buffer db) item 1, progress := 0\<rparr>)\<rparr>)"
      "m' = setCell m x y None"
  | (reject) "btype db \<noteq> Chest" "btype db \<noteq> Hub" "s' = s" "m' = m"
  using assms by (auto simp: deliver_def split: if_splits)

lemma beltStep_cases:
  assumes "beltStep x y (s, m) = Some (s', m')"
  obtains (idle) "s' = s" "m' = m"
  | (deliver) item t b nx ny dt db where
      "itemAt s x y = Some (Some item)" "tileAt s x y = Some t" "building t = Some b" "btype b = Belt"
      "stepInDir x y (dir b) = (nx, ny)" "inBounds s nx ny" "tileAt s nx ny = Some dt"
      "building dt = Some db" "btype db \<noteq> Belt" "deliver s m x y item nx ny dt db = (s', m')"
  | (move) item t b nx ny dt where
      "itemAt s x y = Some (Some item)" "tileAt s x y = Some t" "building t = Some b" "btype b = Belt"
      "stepInDir x y (dir b) = (nx, ny)" "inBounds s nx ny" "tileAt s nx ny = Some dt"
      "case building dt of None \<Rightarrow> True | Some db \<Rightarrow> btype db = Belt"
      "cell m nx ny = Some None" "s' = s" "m' = setCell (setCell m nx ny (Some item)) x y None"
proof (cases "itemAt s x y")
  case None
  with assms show ?thesis by (simp add: beltStep_def)
next
  case (Some i)
  note i = this
  show ?thesis
  proof (cases i)
    case None
    with i assms idle show ?thesis by (simp add: beltStep_def)
  next
    case (Some item)
    note i = i [unfolded this]
    show ?thesis
    proof (cases "tileAt s x y")
      case None
      with i assms show ?thesis by (simp add: beltStep_def)
    next
      case (Some t)
      note t = this
      show ?thesis
      proof (cases "building t")
        case None
        with i t assms idle show ?thesis by (simp add: beltStep_def)
      next
        case (Some b)
        note b = this
        obtain nx ny where n: "stepInDir x y (dir b) = (nx, ny)" by (cases "stepInDir x y (dir b)")
        show ?thesis
        proof (cases "btype b = Belt \<and> inBounds s nx ny")
          case False
          with i t b n assms idle show ?thesis by (auto simp: beltStep_def split: if_splits)
        next
          case True
          note ok = this
          show ?thesis
          proof (cases "tileAt s nx ny")
            case None
            with i t b n ok assms show ?thesis by (simp add: beltStep_def)
          next
            case (Some dt)
            note dt = this
            show ?thesis
            proof (cases "case building dt of Some db \<Rightarrow> btype db \<noteq> Belt | None \<Rightarrow> False")
              case True
              then obtain db where db: "building dt = Some db" "btype db \<noteq> Belt"
                by (auto split: option.splits)
              with i t b n ok dt assms have "deliver s m x y item nx ny dt db = (s', m')"
                by (simp add: beltStep_def)
              with i t b n ok dt db deliver show ?thesis by blast
            next
              case False
              then have free: "case building dt of None \<Rightarrow> True | Some db \<Rightarrow> btype db = Belt"
                by (auto split: option.splits)
              show ?thesis
              proof (cases "cell m nx ny")
                case None
                with i t b n ok dt free assms show ?thesis
                  by (auto simp: beltStep_def split: option.splits)
              next
                case (Some d)
                show ?thesis
                proof (cases d)
                  case None
                  with Some have c: "cell m nx ny = Some None" by simp
                  with i t b n ok dt free assms
                  have "s' = s" "m' = setCell (setCell m nx ny (Some item)) x y None"
                    by (auto simp: beltStep_def split: option.splits)
                  with i t b n ok dt free c move show ?thesis by blast
                next
                  case (Some item')
                  with \<open>cell m nx ny = Some d\<close> i t b n ok dt free assms idle show ?thesis
                    by (auto simp: beltStep_def split: option.splits)
                qed
              qed
            qed
          qed
        qed
      qed
    qed
  qed
qed

lemma beltStep_frame:
  assumes "beltStep x y (s, m) = Some (s', m')"
  shows "sameFrame s s' \<and> items s' = items s \<and> gridShape m' w h = gridShape m w h"
  using assms
proof (cases rule: beltStep_cases)
  case (deliver item t b nx ny dt db)
  from deliver(10) show ?thesis by (cases rule: deliver_cases) simp_all
qed simp_all

lemma beltStep_ok:
  assumes "validWorld s" "gridShape m (width s) (height s)" "inBounds s x y"
  shows "beltStep x y (s, m) \<noteq> None"
proof -
  have c: "inBounds s nx ny \<Longrightarrow> cell m nx ny \<noteq> None" for nx ny
    using gridShape_cell [OF assms(2), of nx ny] by (simp add: inBounds_def)
  have t: "inBounds s nx ny \<Longrightarrow> tileAt s nx ny \<noteq> None" for nx ny
    using valid_tileAt [OF assms(1)] by simp
  have i: "itemAt s x y \<noteq> None"
    using valid_itemAt [OF assms(1)] assms(3) by simp
  show ?thesis
    using i t [OF assms(3)]
    by (auto simp: beltStep_def c t simp del: not_None_eq
        split: prod.splits option.splits Option.bind_splits)
qed

lemma beltStep_unmoved:
  assumes "beltStep x y (s, m) = Some (s', m')" and u: "unmoved pre s m"
  shows "unmoved (pre @ [(x, y)]) s' m'"
proof -
  have i: "itemAt s' = itemAt s"
    using beltStep_frame [OF assms(1)] by (simp add: itemAt_def fun_eq_iff)
  from assms(1) show ?thesis
  proof (cases rule: beltStep_cases)
    case idle
    with u show ?thesis by (simp add: unmoved_def)
  next
    case (deliver item t b nx ny dt db)
    from deliver(10) have "m' = m \<or> m' = setCell m x y None"
      by (cases rule: deliver_cases) simp_all
    with u show ?thesis by (auto simp: unmoved_def i cell_setCell)
  next
    case (move item t b nx ny dt)
    with u show ?thesis by (auto simp: unmoved_def cell_setCell)
  qed
qed

lemma groundItems_items [simp]: "groundItems (s\<lparr>items := m\<rparr>) = gridSum slotCount m"
  by (simp add: groundItems_def)

lemma balance_items:
  "balance (s\<lparr>items := m\<rparr>) = gridSum slotCount m + bufferedItems s + sumCounts (inventory s)
      - ironMined (stats s) - copperMined (stats s) + gearsCrafted (stats s)"
  by (simp add: balance_def totalItems_def)

lemma beltStep_balance:
  assumes "beltStep x y (s, m) = Some (s', m')"
    and c: "\<And>i. itemAt s x y = Some (Some i) \<Longrightarrow> cell m x y = Some (Some i)"
  shows "balance (s'\<lparr>items := m'\<rparr>) = balance (s\<lparr>items := m\<rparr>)"
  using assms(1)
proof (cases rule: beltStep_cases)
  case idle
  then show ?thesis by simp
next
  case (deliver item t b nx ny dt db)
  from c deliver(1) have m: "cell m x y = Some (Some item)" by simp
  from deliver(10) show ?thesis
    using m deliver(7,8)
    by (cases rule: deliver_cases)
       (simp_all add: balance_items gridSum_setCell_case tileBuffer_def slotCount_def)
next
  case (move item t b nx ny dt)
  from c move(1) have m: "cell m x y = Some (Some item)" by simp
  with move show ?thesis
    by (auto simp: balance_items gridSum_setCell_case cell_setCell slotCount_def)
qed

subsection \<open>Invariants of the two phases and of the tick\<close>

lemma productionPhase_invariant:
  assumes v: "validWorld s" and q: "Q [] s"
    and step: "\<And>pre x y post s1 s2. scanOrder (width s) (height s) = pre @ (x, y) # post \<Longrightarrow>
        validWorld s1 \<Longrightarrow> sameFrame s s1 \<Longrightarrow> inBounds s1 x y \<Longrightarrow> Q pre s1 \<Longrightarrow>
        stepTile x y s1 = Some s2 \<Longrightarrow> Q (pre @ [(x, y)]) s2"
  shows "\<exists>s'. productionPhase s = Some s' \<and> validWorld s' \<and> sameFrame s s'
        \<and> Q (scanOrder (width s) (height s)) s'"
  unfolding productionPhase_def
proof (rule grid_loop_invariant [where I = "\<lambda>pre s'. validWorld s' \<and> sameFrame s s' \<and> Q pre s'"])
  show "validWorld s \<and> sameFrame s s \<and> Q [] s" using v q by simp
next
  fix pre x y post s1
  assume sp: "scanOrder (width s) (height s) = pre @ (x, y) # post"
    and i: "validWorld s1 \<and> sameFrame s s1 \<and> Q pre s1"
  have "(x, y) \<in> set (scanOrder (width s) (height s))" unfolding sp by simp
  with i have ib: "inBounds s1 x y" by (simp add: set_scanOrder inBounds_def sameFrame_def)
  with i obtain s2 where s2: "stepTile x y s1 = Some s2" using stepTile_ok by blast
  then have f: "sameFrame s1 s2" by (rule stepTile_frame)
  with i have "validWorld s2" "sameFrame s s2" by (auto simp: sameFrame_def)
  moreover have "Q (pre @ [(x, y)]) s2" using step [OF sp _ _ ib _ s2] i by simp
  ultimately show "\<exists>s'. stepTile x y s1 = Some s' \<and> validWorld s' \<and> sameFrame s s' \<and> Q (pre @ [(x, y)]) s'"
    using s2 by simp
qed

lemma beltPhase_invariant:
  assumes v: "validWorld s" and q: "Q [] (s, items s)"
    and step: "\<And>pre x y post s1 m1 s2 m2. scanOrder (width s) (height s) = pre @ (x, y) # post \<Longrightarrow>
        validWorld s1 \<Longrightarrow> sameFrame s s1 \<Longrightarrow> items s1 = items s \<Longrightarrow>
        gridShape m1 (width s) (height s) \<Longrightarrow> inBounds s1 x y \<Longrightarrow> unmoved pre s1 m1 \<Longrightarrow>
        Q pre (s1, m1) \<Longrightarrow> beltStep x y (s1, m1) = Some (s2, m2) \<Longrightarrow> Q (pre @ [(x, y)]) (s2, m2)"
  shows "\<exists>s' m'. beltPhase s = Some (s', m') \<and> validWorld s' \<and> sameFrame s s' \<and> items s' = items s
        \<and> gridShape m' (width s) (height s) \<and> Q (scanOrder (width s) (height s)) (s', m')"
proof -
  let ?I = "\<lambda>pre p. validWorld (fst p) \<and> sameFrame s (fst p) \<and> items (fst p) = items s
        \<and> gridShape (snd p) (width s) (height s) \<and> unmoved pre (fst p) (snd p) \<and> Q pre p"
  have "\<exists>p. beltPhase s = Some p \<and> ?I (scanOrder (width s) (height s)) p"
    unfolding beltPhase_def
  proof (rule grid_loop_invariant [where I = ?I])
    show "?I [] (s, cloneItemGrid (items s))"
      using v q by (simp add: validWorld_def unmoved_def itemAt_def)
  next
    fix pre x y post p
    assume sp: "scanOrder (width s) (height s) = pre @ (x, y) # post" and i: "?I pre p"
    obtain s1 m1 where p: "p = (s1, m1)" by (cases p)
    have "(x, y) \<in> set (scanOrder (width s) (height s))" unfolding sp by simp
    with i p have ib: "inBounds s1 x y" by (simp add: set_scanOrder inBounds_def sameFrame_def)
    from i p have g: "gridShape m1 (width s1) (height s1)" by (simp add: sameFrame_def)
    from i p ib g obtain s2 m2 where s2: "beltStep x y (s1, m1) = Some (s2, m2)"
      using beltStep_ok [of s1 m1 x y] by auto
    from beltStep_frame [OF s2, of "width s" "height s"] i p
    have "validWorld s2" "sameFrame s s2" "items s2 = items s" "gridShape m2 (width s) (height s)"
      by (auto simp: sameFrame_def)
    moreover have "unmoved (pre @ [(x, y)]) s2 m2"
      using beltStep_unmoved [OF s2] i p by simp
    moreover have "Q (pre @ [(x, y)]) (s2, m2)" using step [OF sp _ _ _ _ ib _ _ s2] i p by simp
    ultimately show "\<exists>p'. beltStep x y p = Some p' \<and> ?I (pre @ [(x, y)]) p'"
      using s2 p by simp
  qed
  then show ?thesis by auto
qed

lemma stepGame_invariant:
  assumes v: "validWorld w" and r: "R (w\<lparr>tick := tick w + 1\<rparr>)"
    and a: "\<And>x y s1 s2. validWorld s1 \<Longrightarrow> inBounds s1 x y \<Longrightarrow> R s1 \<Longrightarrow> stepTile x y s1 = Some s2 \<Longrightarrow> R s2"
    and b: "\<And>x y s1 m1 s2 m2. validWorld s1 \<Longrightarrow> gridShape m1 (width s1) (height s1) \<Longrightarrow> inBounds s1 x y
        \<Longrightarrow> (\<And>i. itemAt s1 x y = Some (Some i) \<Longrightarrow> cell m1 x y = Some (Some i))
        \<Longrightarrow> R (s1\<lparr>items := m1\<rparr>) \<Longrightarrow> beltStep x y (s1, m1) = Some (s2, m2) \<Longrightarrow> R (s2\<lparr>items := m2\<rparr>)"
  shows "\<exists>w'. stepGame w = Some w' \<and> validWorld w' \<and> width w' = width w \<and> height w' = height w
      \<and> tick w' = tick w + 1 \<and> R w'"
proof -
  let ?n = "w\<lparr>tick := tick w + 1\<rparr>"
  have vn: "validWorld ?n" using v by simp
  obtain n1 where n1: "productionPhase ?n = Some n1" "validWorld n1" "sameFrame ?n n1" "R n1"
    using productionPhase_invariant [OF vn, where Q = "\<lambda>_. R"] r a by blast
  have q0: "R (n1\<lparr>items := items n1\<rparr>)" using n1(4) by simp
  have "\<exists>s' m'. beltPhase n1 = Some (s', m') \<and> validWorld s' \<and> sameFrame n1 s' \<and> items s' = items n1
        \<and> gridShape m' (width n1) (height n1)
        \<and> (\<lambda>_ (s, m). R (s\<lparr>items := m\<rparr>)) (scanOrder (width n1) (height n1)) (s', m')"
  proof (rule beltPhase_invariant [OF n1(2)])
    show "case (n1, items n1) of (s, m) \<Rightarrow> R (s\<lparr>items := m\<rparr>)" using q0 by simp
  next
    fix pre x y post s1 m1 s2 m2
    assume sp: "scanOrder (width n1) (height n1) = pre @ (x, y) # post"
      and h: "validWorld s1" "sameFrame n1 s1" "gridShape m1 (width n1) (height n1)" "inBounds s1 x y"
        "unmoved pre s1 m1" "case (s1, m1) of (s, m) \<Rightarrow> R (s\<lparr>items := m\<rparr>)"
        "beltStep x y (s1, m1) = Some (s2, m2)"
    have "(x, y) \<notin> set pre" using scanOrder_split(1) [OF sp] .
    with h(5) have c: "\<And>i. itemAt s1 x y = Some (Some i) \<Longrightarrow> cell m1 x y = Some (Some i)"
      by (simp add: unmoved_def)
    from h(2,3) have g: "gridShape m1 (width s1) (height s1)" by (simp add: sameFrame_def)
    show "case (s2, m2) of (s, m) \<Rightarrow> R (s\<lparr>items := m\<rparr>)"
      using b [OF h(1) g h(4) c _ h(7)] h(6) by simp
  qed
  then obtain n2 m where n2: "beltPhase n1 = Some (n2, m)" "validWorld n2" "sameFrame n1 n2"
      "gridShape m (width n1) (height n1)" "R (n2\<lparr>items := m\<rparr>)"
    by auto
  have "stepGame w = Some (n2\<lparr>items := m\<rparr>)"
    using n1 n2 by (simp add: stepGame_def)
  moreover have "validWorld (n2\<lparr>items := m\<rparr>)"
    using n2 n1 by (simp add: validWorld_def sameFrame_def)
  ultimately show ?thesis using n1 n2 by (simp add: sameFrame_def)
qed

subsection \<open>The tick counter\<close>

text \<open>
  Claim C7. On every world whose grids have the shape of its dimensions, \<open>stepGame\<close> returns
  a world, and the tick counter of that world is the old one plus one.
\<close>

theorem stepGame_tick:
  "validWorld w \<Longrightarrow> \<exists>w'. stepGame w = Some w' \<and> tick w' = tick w + 1"
  using stepGame_invariant [of w "\<lambda>_. True"] by auto

theorem stepGame_tick_witness:
  "validWorld mineWorld \<and> (\<exists>w'. stepGame mineWorld = Some w' \<and> tick w' = tick mineWorld + 1)"
proof -
  have v: "validWorld mineWorld"
    by (simp add: validWorld_def gridShape_def mineWorld_def)
  show ?thesis using v stepGame_tick [OF v] by simp
qed

subsection \<open>The inventory during a tick\<close>

lemma stepMine_inventory: "stepMine s x y t b = Some s' \<Longrightarrow> inventory s' = inventory s"
  by (auto simp: stepMine_def Let_def split: if_splits prod.splits Option.bind_splits)

lemma stepFurnace_inventory: "stepFurnace s x y t b = Some s' \<Longrightarrow> inventory s' = inventory s"
  by (auto simp: stepFurnace_def Let_def split: if_splits prod.splits option.splits Option.bind_splits)

lemma stepAssembler_inventory: "stepAssembler s x y t b = Some s' \<Longrightarrow> inventory s' = inventory s"
  by (auto simp: stepAssembler_def Let_def split: if_splits prod.splits option.splits Option.bind_splits)

lemma stepWireMill_inventory: "stepWireMill s x y t b = Some s' \<Longrightarrow> inventory s' = inventory s"
  by (auto simp: stepWireMill_def Let_def split: if_splits prod.splits option.splits Option.bind_splits)

lemma stepHub_inventory:
  "stepHub s x y = Some s' \<Longrightarrow> count_of (inventory s) k \<le> count_of (inventory s') k"
  by (auto simp: stepHub_def Let_def count_of_add_count split: if_splits prod.splits option.splits Option.bind_splits)

lemma stepTile_inventory:
  "stepTile x y s = Some s' \<Longrightarrow> count_of (inventory s) k \<le> count_of (inventory s') k"
  using stepMine_inventory stepFurnace_inventory stepAssembler_inventory stepWireMill_inventory
    stepHub_inventory [of s x y s' k]
  by (auto simp: stepTile_def split: option.splits BuildingType.splits Option.bind_splits)

lemma beltStep_inventory:
  assumes "beltStep x y (s, m) = Some (s', m')"
  shows "count_of (inventory s) k \<le> count_of (inventory s') k"
  using assms
proof (cases rule: beltStep_cases)
  case (deliver item t b nx ny dt db)
  from deliver(10) show ?thesis by (cases rule: deliver_cases) (simp_all add: count_of_add_count)
qed simp_all

text \<open>
  Claim C10. A tick never decreases an inventory count: on every valid world \<open>w\<close> the tick
  returns a world whose inventory holds, of every item kind, at least what the inventory of
  \<open>w\<close> holds.
\<close>

theorem stepGame_inventory:
  "validWorld w \<Longrightarrow>
     \<exists>w'. stepGame w = Some w' \<and> (\<forall>k. count_of (inventory w) k \<le> count_of (inventory w') k)"
proof -
  assume v: "validWorld w"
  have "\<exists>w'. stepGame w = Some w' \<and> validWorld w' \<and> width w' = width w \<and> height w' = height w
      \<and> tick w' = tick w + 1 \<and> (\<forall>k. count_of (inventory w) k \<le> count_of (inventory w') k)"
  proof (rule stepGame_invariant [OF v])
    show "\<forall>k. count_of (inventory w) k \<le> count_of (inventory (w\<lparr>tick := tick w + 1\<rparr>)) k" by simp
  next
    fix x y s1 s2
    assume "\<forall>k. count_of (inventory w) k \<le> count_of (inventory s1) k" "stepTile x y s1 = Some s2"
    then show "\<forall>k. count_of (inventory w) k \<le> count_of (inventory s2) k"
      using stepTile_inventory order_trans by blast
  next
    fix x y s1 m1 s2 m2
    assume "\<forall>k. count_of (inventory w) k \<le> count_of (inventory (s1\<lparr>items := m1\<rparr>)) k"
      "beltStep x y (s1, m1) = Some (s2, m2)"
    then show "\<forall>k. count_of (inventory w) k \<le> count_of (inventory (s2\<lparr>items := m2\<rparr>)) k"
      using beltStep_inventory [of x y s1 m1 s2 m2] order_trans by fastforce
  qed
  then show ?thesis by blast
qed

theorem stepGame_inventory_witness:
  "validWorld hubWorld
   \<and> (\<exists>w'. stepGame hubWorld = Some w'
        \<and> count_of (inventory hubWorld) IronPlate \<le> count_of (inventory w') IronPlate)"
proof -
  have v: "validWorld hubWorld"
    by (simp add: validWorld_def gridShape_def hubWorld_def)
  show ?thesis using v stepGame_inventory [OF v] by blast
qed

subsection \<open>Conservation of items\<close>

lemma balance_tick [simp]: "balance (s\<lparr>tick := n\<rparr>) = balance s"
  by (simp add: balance_def totalItems_def)

text \<open>
  Claim C1, amended. On every valid world a tick returns a world whose item total (ground
  items, building buffers and inventory) is the old total, plus one for every ore mined in the
  tick (the increase of ironMined and copperMined), minus one for every gear crafted in the
  tick (the increase of gearsCrafted: an assembler turns two buffered plates into one gear).
  Every other move of an item keeps the total.
\<close>

theorem stepGame_conservation:
  "validWorld w \<Longrightarrow>
     \<exists>w'. stepGame w = Some w'
       \<and> totalItems w' = totalItems w
           + (ironMined (stats w') - ironMined (stats w))
           + (copperMined (stats w') - copperMined (stats w))
           - (gearsCrafted (stats w') - gearsCrafted (stats w))"
proof -
  assume v: "validWorld w"
  have "\<exists>w'. stepGame w = Some w' \<and> validWorld w' \<and> width w' = width w \<and> height w' = height w
      \<and> tick w' = tick w + 1 \<and> balance w' = balance w"
  proof (rule stepGame_invariant [OF v])
    show "balance (w\<lparr>tick := tick w + 1\<rparr>) = balance w" by simp
  next
    fix x y s1 s2
    assume "balance s1 = balance w" "stepTile x y s1 = Some s2"
    then show "balance s2 = balance w" using stepTile_balance by simp
  next
    fix x y s1 m1 s2 m2
    assume "\<And>i. itemAt s1 x y = Some (Some i) \<Longrightarrow> cell m1 x y = Some (Some i)"
      "balance (s1\<lparr>items := m1\<rparr>) = balance w" "beltStep x y (s1, m1) = Some (s2, m2)"
    then show "balance (s2\<lparr>items := m2\<rparr>) = balance w"
      using beltStep_balance [of x y s1 m1 s2 m2] by simp
  qed
  then obtain w' where "stepGame w = Some w'" "balance w' = balance w" by blast
  then show ?thesis by (auto simp: balance_def)
qed

theorem stepGame_conservation_witness:
  "validWorld gearWorld
   \<and> (\<exists>w'. stepGame gearWorld = Some w'
       \<and> totalItems w' = totalItems gearWorld
           + (ironMined (stats w') - ironMined (stats gearWorld))
           + (copperMined (stats w') - copperMined (stats gearWorld))
           - (gearsCrafted (stats w') - gearsCrafted (stats gearWorld)))"
proof -
  have v: "validWorld gearWorld"
    by (simp add: validWorld_def gridShape_def gearWorld_def)
  show ?thesis using v stepGame_conservation [OF v] by simp
qed

text \<open>
  Claim C1 as stated fails: in \<open>gearWorld\<close> no mine exists and no ore is mined, yet the tick
  takes the item total from 2 to 1, because the assembler consumes two plates for one gear.
\<close>

theorem stepGame_conservation_counterexample:
  "validWorld gearWorld
   \<and> totalItems gearWorld = 2
   \<and> map_option totalItems (stepGame gearWorld) = Some 1
   \<and> map_option ironMined (map_option stats (stepGame gearWorld)) = Some (ironMined (stats gearWorld))
   \<and> map_option copperMined (map_option stats (stepGame gearWorld)) = Some (copperMined (stats gearWorld))"
  by code_simp

subsection \<open>Mines\<close>

lemma canPlaceItem_iff:
  assumes "validWorld s"
  shows "canPlaceItem s x y = Some True \<longleftrightarrow>
     inBounds s x y
     \<and> (\<forall>t b. tileAt s x y = Some t \<longrightarrow> building t = Some b \<longrightarrow> btype b = Belt)
     \<and> itemAt s x y = Some None"
proof (cases "inBounds s x y")
  case True
  with assms obtain t i where "tileAt s x y = Some t" "itemAt s x y = Some i"
    using valid_tileAt_ex valid_itemAt_ex by blast
  with True show ?thesis
    by (cases "building t") (auto simp: canPlaceItem_def)
next
  case False
  then show ?thesis by (simp add: canPlaceItem_def)
qed

lemma canPlaceItem_cong:
  "inBounds s' x y = inBounds s x y \<Longrightarrow> tileAt s' x y = tileAt s x y \<Longrightarrow> itemAt s' x y = itemAt s x y
     \<Longrightarrow> canPlaceItem s' x y = canPlaceItem s x y"
  by (simp add: canPlaceItem_def cong: if_cong Option.bind_cong)

lemma canPlaceItem_setTile_other:
  "nx \<noteq> x \<or> ny \<noteq> y \<Longrightarrow> canPlaceItem (setTile s x y t) nx ny = canPlaceItem s nx ny"
  by (rule canPlaceItem_cong) auto

lemma stepInDir_moves: "stepInDir x y d = (nx, ny) \<Longrightarrow> nx \<noteq> x \<or> ny \<noteq> y"
  by (cases d) auto

lemma stepTile_mine:
  assumes "tileAt s x y = Some t" "building t = Some b" "btype b = Mine"
  shows "stepTile x y s = stepMine s x y t b"
  using assms by (simp add: stepTile_def)

subsection \<open>What a step leaves alone\<close>

lemma layoutAt_simps [simp]:
  "layoutAt (setTile s x y t) x' y' =
     (if x' = x \<and> y' = y \<and> tileAt s x y \<noteq> None
      then Some (map_option (\<lambda>b. (btype b, dir b)) (building t)) else layoutAt s x' y')"
  "layoutAt (setItem s x y i) x' y' = layoutAt s x' y'"
  "layoutAt (s\<lparr>stats := st\<rparr>) x' y' = layoutAt s x' y'"
  "layoutAt (s\<lparr>inventory := c\<rparr>) x' y' = layoutAt s x' y'"
  "layoutAt (s\<lparr>tick := n\<rparr>) x' y' = layoutAt s x' y'"
  "layoutAt (s\<lparr>items := g\<rparr>) x' y' = layoutAt s x' y'"
  by (simp_all add: layoutAt_def)

lemma layoutAt_tile:
  "tileAt s x y = Some t \<Longrightarrow> building t = Some b \<Longrightarrow> layoutAt s x y = Some (Some (btype b, dir b))"
  by (simp add: layoutAt_def)

lemma stepMine_layout:
  "stepMine s x y t b = Some s' \<Longrightarrow> tileAt s x y = Some t \<Longrightarrow> building t = Some b
     \<Longrightarrow> layoutAt s' x' y' = layoutAt s x' y'"
  by (auto simp: stepMine_def Let_def layoutAt_tile split: if_splits prod.splits Option.bind_splits)

lemma stepFurnace_layout:
  "stepFurnace s x y t b = Some s' \<Longrightarrow> tileAt s x y = Some t \<Longrightarrow> building t = Some b
     \<Longrightarrow> layoutAt s' x' y' = layoutAt s x' y'"
  by (auto simp: stepFurnace_def Let_def layoutAt_tile split: if_splits prod.splits option.splits Option.bind_splits)

lemma stepAssembler_layout:
  "stepAssembler s x y t b = Some s' \<Longrightarrow> tileAt s x y = Some t \<Longrightarrow> building t = Some b
     \<Longrightarrow> layoutAt s' x' y' = layoutAt s x' y'"
  by (auto simp: stepAssembler_def Let_def layoutAt_tile split: if_splits prod.splits option.splits Option.bind_splits)

lemma stepWireMill_layout:
  "stepWireMill s x y t b = Some s' \<Longrightarrow> tileAt s x y = Some t \<Longrightarrow> building t = Some b
     \<Longrightarrow> layoutAt s' x' y' = layoutAt s x' y'"
  by (auto simp: stepWireMill_def Let_def layoutAt_tile split: if_splits prod.splits option.splits Option.bind_splits)

lemma stepHub_layout: "stepHub s x y = Some s' \<Longrightarrow> layoutAt s' x' y' = layoutAt s x' y'"
  by (auto simp: stepHub_def Let_def split: if_splits prod.splits option.splits Option.bind_splits)

lemma stepTile_layout: "stepTile x y s = Some s' \<Longrightarrow> layoutAt s' x' y' = layoutAt s x' y'"
  using stepMine_layout stepFurnace_layout stepAssembler_layout stepWireMill_layout stepHub_layout
  by (auto simp: stepTile_def split: option.splits BuildingType.splits Option.bind_splits)

lemma stepMine_other:
  "stepMine s x y t b = Some s' \<Longrightarrow> x' \<noteq> x \<or> y' \<noteq> y \<Longrightarrow> tileAt s' x' y' = tileAt s x' y'"
  by (auto simp: stepMine_def Let_def split: if_splits prod.splits Option.bind_splits)

lemma stepFurnace_other:
  "stepFurnace s x y t b = Some s' \<Longrightarrow> x' \<noteq> x \<or> y' \<noteq> y \<Longrightarrow> tileAt s' x' y' = tileAt s x' y'"
  by (auto simp: stepFurnace_def Let_def split: if_splits prod.splits option.splits Option.bind_splits)

lemma stepAssembler_other:
  "stepAssembler s x y t b = Some s' \<Longrightarrow> x' \<noteq> x \<or> y' \<noteq> y \<Longrightarrow> tileAt s' x' y' = tileAt s x' y'"
  by (auto simp: stepAssembler_def Let_def split: if_splits prod.splits option.splits Option.bind_splits)

lemma stepWireMill_other:
  "stepWireMill s x y t b = Some s' \<Longrightarrow> x' \<noteq> x \<or> y' \<noteq> y \<Longrightarrow> tileAt s' x' y' = tileAt s x' y'"
  by (auto simp: stepWireMill_def Let_def split: if_splits prod.splits option.splits Option.bind_splits)

lemma stepHub_other: "stepHub s x y = Some s' \<Longrightarrow> tileAt s' x' y' = tileAt s x' y'"
  by (auto simp: stepHub_def Let_def split: if_splits prod.splits option.splits Option.bind_splits)

lemma stepTile_other:
  "stepTile x y s = Some s' \<Longrightarrow> x' \<noteq> x \<or> y' \<noteq> y \<Longrightarrow> tileAt s' x' y' = tileAt s x' y'"
  using stepMine_other [of s x y _ _ s' x' y'] stepFurnace_other [of s x y _ _ s' x' y']
    stepAssembler_other [of s x y _ _ s' x' y'] stepWireMill_other [of s x y _ _ s' x' y']
    stepHub_other [of s x y s' x' y']
  by (auto simp: stepTile_def split: option.splits BuildingType.splits Option.bind_splits)

lemma beltStep_layout:
  assumes "beltStep x y (s, m) = Some (s', m')"
  shows "layoutAt s' x' y' = layoutAt s x' y'"
  using assms
proof (cases rule: beltStep_cases)
  case (deliver item t b nx ny dt db)
  from deliver(10) show ?thesis
    using deliver(7,8) by (cases rule: deliver_cases) (auto simp: layoutAt_tile)
qed simp_all

lemma beltStep_tile:
  assumes "beltStep x y (s, m) = Some (s', m')"
    and "tileAt s x' y' = Some t'"
    and "case building t' of None \<Rightarrow> True | Some b' \<Rightarrow> btype b' \<in> {Mine, Belt, Hub, Chest}"
  shows "tileAt s' x' y' = Some t'"
  using assms(1)
proof (cases rule: beltStep_cases)
  case (deliver item t b nx ny dt db)
  from deliver(10) show ?thesis
    using deliver(7,8) assms(2,3) by (cases rule: deliver_cases) auto
qed (simp_all add: assms(2))

lemma beltStep_stats:
  assumes "beltStep x y (s, m) = Some (s', m')"
  shows "stats s' = stats s"
  using assms
proof (cases rule: beltStep_cases)
  case (deliver item t b nx ny dt db)
  from deliver(10) show ?thesis by (cases rule: deliver_cases) auto
qed simp_all

subsection \<open>Blocked mines\<close>







subsection \<open>Belts that feed one tile\<close>

lemma layoutAt_Some:
  "layoutAt s x y = Some (Some (k, d)) \<longleftrightarrow>
     (\<exists>t b. tileAt s x y = Some t \<and> building t = Some b \<and> btype b = k \<and> dir b = d)"
  by (auto simp: layoutAt_def)

lemma layoutAt_free:
  "layoutAt s x y = Some None \<or> (\<exists>d. layoutAt s x y = Some (Some (Belt, d))) \<longleftrightarrow>
     (\<exists>t. tileAt s x y = Some t \<and> (case building t of None \<Rightarrow> True | Some b \<Rightarrow> btype b = Belt))"
  by (auto simp: layoutAt_def split: option.splits)

lemma beltStep_move:
  assumes "layoutAt s x y = Some (Some (Belt, d))" and "itemAt s x y = Some (Some item)"
    and "stepInDir x y d = (nx, ny)" and "inBounds s nx ny"
    and "layoutAt s nx ny = Some None \<or> (\<exists>d'. layoutAt s nx ny = Some (Some (Belt, d')))"
    and "cell m nx ny = Some c"
  shows "beltStep x y (s, m)
      = Some (s, if c = None then setCell (setCell m nx ny (Some item)) x y None else m)"
proof -
  from assms(1) obtain t b where t: "tileAt s x y = Some t" "building t = Some b" "btype b = Belt" "dir b = d"
    unfolding layoutAt_Some by blast
  from assms(5) obtain dt where dt: "tileAt s nx ny = Some dt"
      "case building dt of None \<Rightarrow> True | Some b \<Rightarrow> btype b = Belt"
    unfolding layoutAt_free by blast
  show ?thesis
    using t dt assms(2,3,4,6) by (auto simp: beltStep_def split: option.splits)
qed

lemma beltStep_elsewhere:
  assumes st: "beltStep cx cy (s, m) = Some (s', m')"
    and p: "px \<noteq> cx \<or> py \<noteq> cy"
    and free: "cell m px py = Some None \<Longrightarrow>
        \<not> (\<exists>d i. layoutAt s cx cy = Some (Some (Belt, d)) \<and> itemAt s cx cy = Some (Some i)
               \<and> stepInDir cx cy d = (px, py))"
  shows "cell m' px py = cell m px py"
  using st
proof (cases rule: beltStep_cases)
  case idle
  then show ?thesis by simp
next
  case (deliver item t b nx ny dt db)
  from deliver(10) have "m' = m \<or> m' = setCell m cx cy None"
    by (cases rule: deliver_cases) simp_all
  with p show ?thesis by (auto simp: cell_setCell)
next
  case (move item t b nx ny dt)
  have "layoutAt s cx cy = Some (Some (Belt, dir b))" using move(2,3,4) by (simp add: layoutAt_def)
  with free move(1,5,9) have "px \<noteq> nx \<or> py \<noteq> ny" by auto
  with p move(11) show ?thesis by (auto simp: cell_setCell)
qed

lemma layoutAt_inBounds: "validWorld s \<Longrightarrow> layoutAt s x y = Some l \<Longrightarrow> inBounds s x y"
  using valid_tileAt [of s x y] by (auto simp: layoutAt_def)

lemma beltStep_no_item: "itemAt s x y = Some None \<Longrightarrow> beltStep x y (s, m) = Some (s, m)"
  by (simp add: beltStep_def)

lemma beltPhase_jam:
  assumes v: "validWorld s"
    and A: "layoutAt s xa ya = Some (Some (Belt, da))" "itemAt s xa ya = Some (Some a)"
      "stepInDir xa ya da = (dx, dy)"
    and B: "layoutAt s xb yb = Some (Some (Belt, db))" "itemAt s xb yb = Some (Some b)"
      "stepInDir xb yb db = (dx, dy)"
    and AB: "xb \<noteq> xa \<or> yb \<noteq> ya"
    and D: "inBounds s dx dy"
      "layoutAt s dx dy = Some None \<or> (\<exists>d. layoutAt s dx dy = Some (Some (Belt, d)))"
      "itemAt s dx dy = Some None"
    and first: "\<forall>x y d i. layoutAt s x y = Some (Some (Belt, d)) \<and> itemAt s x y = Some (Some i)
        \<and> stepInDir x y d = (dx, dy) \<longrightarrow> (x = xa \<and> y = ya) \<or> before (xa, ya) (x, y)"
  shows "\<exists>s' m'. beltPhase s = Some (s', m') \<and> cell m' dx dy = Some (Some a)
      \<and> cell m' xb yb = Some (Some b) \<and> totalItems (s'\<lparr>items := m'\<rparr>) = totalItems s"
proof -
  let ?order = "scanOrder (width s) (height s)"
  let ?Q = "\<lambda>pre p. (\<forall>x y. layoutAt (fst p) x y = layoutAt s x y) \<and> stats (fst p) = stats s
      \<and> balance ((fst p)\<lparr>items := snd p\<rparr>) = balance s
      \<and> cell (snd p) xb yb = Some (Some b)
      \<and> cell (snd p) dx dy = Some (if (xa, ya) \<in> set pre then Some a else None)"
  have inA: "(xa, ya) \<in> set ?order"
    using layoutAt_inBounds [OF v A(1)] by (simp add: set_scanOrder inBounds_def)
  have AD: "dx \<noteq> xa \<or> dy \<noteq> ya" using A(3) by (rule stepInDir_moves)
  have BD: "dx \<noteq> xb \<or> dy \<noteq> yb" using B(3) by (rule stepInDir_moves)
  have "\<exists>s' m'. beltPhase s = Some (s', m') \<and> validWorld s' \<and> sameFrame s s' \<and> items s' = items s
        \<and> gridShape m' (width s) (height s) \<and> ?Q ?order (s', m')"
  proof (rule beltPhase_invariant [OF v])
    show "?Q [] (s, items s)"
      using B(2) D(3) by (simp add: itemAt_def)
  next
    fix pre cx cy post s1 m1 s2 m2
    assume sp: "?order = pre @ (cx, cy) # post"
      and f: "sameFrame s s1" and it: "items s1 = items s" and ib: "inBounds s1 cx cy"
      and u: "unmoved pre s1 m1" and q: "?Q pre (s1, m1)"
      and st: "beltStep cx cy (s1, m1) = Some (s2, m2)"
    have i1: "itemAt s1 = itemAt s" using it by (simp add: itemAt_def fun_eq_iff)
    have l1: "layoutAt s1 x y = layoutAt s x y" for x y using q by simp
    have b1: "inBounds s1 = inBounds s" using f by (simp add: inBounds_def sameFrame_def fun_eq_iff)
    have np: "(cx, cy) \<notin> set pre" using scanOrder_split(1) [OF sp] .
    have late: "(xa, ya) \<notin> set pre \<Longrightarrow> xa \<noteq> cx \<or> ya \<noteq> cy \<Longrightarrow> before (cx, cy) (xa, ya)"
      using inA scanOrder_split(4) [OF sp, of "(xa, ya)"] unfolding sp by auto
    have c: "\<And>i. itemAt s1 cx cy = Some (Some i) \<Longrightarrow> cell m1 cx cy = Some (Some i)"
      using u np by (simp add: unmoved_def)
    have keep: "(\<forall>x y. layoutAt s2 x y = layoutAt s x y) \<and> stats s2 = stats s
        \<and> balance (s2\<lparr>items := m2\<rparr>) = balance s"
      using beltStep_layout [OF st] beltStep_stats [OF st] beltStep_balance [OF st c] q by simp
    have cells: "cell m2 xb yb = Some (Some b)
        \<and> cell m2 dx dy = Some (if (xa, ya) \<in> set (pre @ [(cx, cy)]) then Some a else None)"
    proof (cases "cx = xa \<and> cy = ya")
      case True
      with np q have d: "cell m1 dx dy = Some None" by simp
      have "beltStep xa ya (s1, m1)
          = Some (s1, if (None :: ItemType option) = None then setCell (setCell m1 dx dy (Some a)) xa ya None else m1)"
        using A D by (intro beltStep_move) (simp_all add: l1 i1 b1 d)
      with st True have "m2 = setCell (setCell m1 dx dy (Some a)) xa ya None" by simp
      with q d AD AB BD True show ?thesis by (auto simp: cell_setCell)
    next
      case notA: False
      show ?thesis
      proof (cases "cx = xb \<and> cy = yb")
        case True
        have "before (xa, ya) (xb, yb)" using first B AB by blast
        with late True have inpre: "(xa, ya) \<in> set pre" using before_asym by blast
        with q have d: "cell m1 dx dy = Some (Some a)" by simp
        have "beltStep xb yb (s1, m1)
            = Some (s1, if Some a = None then setCell (setCell m1 dx dy (Some b)) xb yb None else m1)"
          using B D by (intro beltStep_move) (simp_all add: l1 i1 b1 d)
        with st True have "m2 = m1" by simp
        with q inpre show ?thesis by simp
      next
        case notB: False
        have 1: "cell m2 xb yb = cell m1 xb yb"
          using notB q by (intro beltStep_elsewhere [OF st]) auto
        have 2: "cell m2 dx dy = cell m1 dx dy"
        proof (cases "cx = dx \<and> cy = dy")
          case True
          with D(3) st show ?thesis by (simp add: beltStep_no_item i1)
        next
          case False
          show ?thesis
          proof (rule beltStep_elsewhere [OF st])
            show "dx \<noteq> cx \<or> dy \<noteq> cy" using False by auto
          next
            assume e: "cell m1 dx dy = Some None"
            with q have na: "(xa, ya) \<notin> set pre" by (auto split: if_splits)
            show "\<not> (\<exists>d i. layoutAt s1 cx cy = Some (Some (Belt, d)) \<and> itemAt s1 cx cy = Some (Some i)
               \<and> stepInDir cx cy d = (dx, dy))"
            proof
              assume "\<exists>d i. layoutAt s1 cx cy = Some (Some (Belt, d)) \<and> itemAt s1 cx cy = Some (Some i)
                 \<and> stepInDir cx cy d = (dx, dy)"
              then have "before (xa, ya) (cx, cy)" using first notA by (auto simp: l1 i1)
              moreover have "before (cx, cy) (xa, ya)" using late na notA by auto
              ultimately show False using before_asym by blast
            qed
          qed
        qed
        from 1 2 q notA show ?thesis by auto
      qed
    qed
    from keep cells show "?Q (pre @ [(cx, cy)]) (s2, m2)" by simp
  qed
  then obtain s' m' where r: "beltPhase s = Some (s', m')" "stats s' = stats s"
      "balance (s'\<lparr>items := m'\<rparr>) = balance s" "cell m' xb yb = Some (Some b)"
      "cell m' dx dy = Some (if (xa, ya) \<in> set ?order then Some a else None)"
    by auto
  from r(2,3) have "totalItems (s'\<lparr>items := m'\<rparr>) = totalItems s" by (simp add: balance_def)
  with r inA show ?thesis by simp
qed

subsection \<open>The belt loop as a whole\<close>

lemma stepGame_split:
  "productionPhase (w\<lparr>tick := tick w + 1\<rparr>) = Some s \<Longrightarrow> beltPhase s = Some (s', m')
     \<Longrightarrow> stepGame w = Some (s'\<lparr>items := m'\<rparr>)"
  by (simp add: stepGame_def)

lemma productionPhase_valid:
  assumes "validWorld n" and "productionPhase n = Some s"
  shows "validWorld s \<and> sameFrame n s"
  using productionPhase_invariant [OF assms(1), of "\<lambda>_ _. True"] assms(2) by auto

lemma feeds_iff:
  "feeds s (x, y) q i \<longleftrightarrow>
     (\<exists>d. layoutAt s x y = Some (Some (Belt, d)) \<and> itemAt s x y = Some (Some i) \<and> stepInDir x y d = q)"
  by (auto simp: feeds_def split: option.splits)

lemma freeTile_iff:
  "freeTile s x y \<longleftrightarrow> layoutAt s x y = Some None \<or> (\<exists>d. layoutAt s x y = Some (Some (Belt, d)))"
  by (auto simp: freeTile_def split: option.splits)

lemma beltPhase_conserves:
  assumes v: "validWorld s"
  shows "\<exists>s' m'. beltPhase s = Some (s', m') \<and> totalItems (s'\<lparr>items := m'\<rparr>) = totalItems s"
proof -
  let ?Q = "\<lambda>pre p. stats (fst p) = stats s \<and> balance ((fst p)\<lparr>items := snd p\<rparr>) = balance s"
  have "\<exists>s' m'. beltPhase s = Some (s', m') \<and> validWorld s' \<and> sameFrame s s' \<and> items s' = items s
        \<and> gridShape m' (width s) (height s) \<and> ?Q (scanOrder (width s) (height s)) (s', m')"
  proof (rule beltPhase_invariant [OF v])
    show "?Q [] (s, items s)" by simp
  next
    fix pre cx cy post s1 m1 s2 m2
    assume sp: "scanOrder (width s) (height s) = pre @ (cx, cy) # post"
      and u: "unmoved pre s1 m1" and q: "?Q pre (s1, m1)"
      and st: "beltStep cx cy (s1, m1) = Some (s2, m2)"
    have np: "(cx, cy) \<notin> set pre" using scanOrder_split(1) [OF sp] .
    have c: "\<And>i. itemAt s1 cx cy = Some (Some i) \<Longrightarrow> cell m1 cx cy = Some (Some i)"
      using u np by (simp add: unmoved_def)
    show "?Q (pre @ [(cx, cy)]) (s2, m2)"
      using beltStep_stats [OF st] beltStep_balance [OF st c] q by simp
  qed
  then obtain s' m' where "beltPhase s = Some (s', m')" "stats s' = stats s"
      "balance (s'\<lparr>items := m'\<rparr>) = balance s"
    by auto
  then show ?thesis by (auto simp: balance_def)
qed

lemma beltPhase_arrives:
  assumes v: "validWorld s"
    and A: "layoutAt s xa ya = Some (Some (Belt, da))" "itemAt s xa ya = Some (Some a)"
      "stepInDir xa ya da = (dx, dy)"
    and D: "inBounds s dx dy"
      "layoutAt s dx dy = Some None \<or> (\<exists>d. layoutAt s dx dy = Some (Some (Belt, d)))"
      "itemAt s dx dy = Some None"
    and first: "\<forall>x y d i. layoutAt s x y = Some (Some (Belt, d)) \<and> itemAt s x y = Some (Some i)
        \<and> stepInDir x y d = (dx, dy) \<longrightarrow> (x = xa \<and> y = ya) \<or> before (xa, ya) (x, y)"
  shows "\<exists>s' m'. beltPhase s = Some (s', m') \<and> cell m' dx dy = Some (Some a)"
proof -
  let ?order = "scanOrder (width s) (height s)"
  let ?Q = "\<lambda>pre p. (\<forall>x y. layoutAt (fst p) x y = layoutAt s x y)
      \<and> cell (snd p) dx dy = Some (if (xa, ya) \<in> set pre then Some a else None)"
  have inA: "(xa, ya) \<in> set ?order"
    using layoutAt_inBounds [OF v A(1)] by (simp add: set_scanOrder inBounds_def)
  have AD: "dx \<noteq> xa \<or> dy \<noteq> ya" using A(3) by (rule stepInDir_moves)
  have "\<exists>s' m'. beltPhase s = Some (s', m') \<and> validWorld s' \<and> sameFrame s s' \<and> items s' = items s
        \<and> gridShape m' (width s) (height s) \<and> ?Q ?order (s', m')"
  proof (rule beltPhase_invariant [OF v])
    show "?Q [] (s, items s)"
      using D(3) by (simp add: itemAt_def)
  next
    fix pre cx cy post s1 m1 s2 m2
    assume sp: "?order = pre @ (cx, cy) # post"
      and f: "sameFrame s s1" and it: "items s1 = items s"
      and q: "?Q pre (s1, m1)"
      and st: "beltStep cx cy (s1, m1) = Some (s2, m2)"
    have i1: "itemAt s1 = itemAt s" using it by (simp add: itemAt_def fun_eq_iff)
    have l1: "layoutAt s1 x y = layoutAt s x y" for x y using q by simp
    have b1: "inBounds s1 = inBounds s" using f by (simp add: inBounds_def sameFrame_def fun_eq_iff)
    have np: "(cx, cy) \<notin> set pre" using scanOrder_split(1) [OF sp] .
    have late: "(xa, ya) \<notin> set pre \<Longrightarrow> xa \<noteq> cx \<or> ya \<noteq> cy \<Longrightarrow> before (cx, cy) (xa, ya)"
      using inA scanOrder_split(4) [OF sp, of "(xa, ya)"] unfolding sp by auto
    have keep: "\<forall>x y. layoutAt s2 x y = layoutAt s x y"
      using beltStep_layout [OF st] q by simp
    have cells: "cell m2 dx dy = Some (if (xa, ya) \<in> set (pre @ [(cx, cy)]) then Some a else None)"
    proof (cases "cx = xa \<and> cy = ya")
      case True
      with np q have d: "cell m1 dx dy = Some None" by simp
      have "beltStep xa ya (s1, m1)
          = Some (s1, if (None :: ItemType option) = None then setCell (setCell m1 dx dy (Some a)) xa ya None else m1)"
        using A D by (intro beltStep_move) (simp_all add: l1 i1 b1 d)
      with st True have "m2 = setCell (setCell m1 dx dy (Some a)) xa ya None" by simp
      with q d AD True show ?thesis by (auto simp: cell_setCell)
    next
      case notA: False
      have "cell m2 dx dy = cell m1 dx dy"
      proof (cases "cx = dx \<and> cy = dy")
        case True
        with D(3) st show ?thesis by (simp add: beltStep_no_item i1)
      next
        case False
        show ?thesis
        proof (rule beltStep_elsewhere [OF st])
          show "dx \<noteq> cx \<or> dy \<noteq> cy" using False by auto
        next
          assume e: "cell m1 dx dy = Some None"
          with q have na: "(xa, ya) \<notin> set pre" by (auto split: if_splits)
          show "\<not> (\<exists>d i. layoutAt s1 cx cy = Some (Some (Belt, d)) \<and> itemAt s1 cx cy = Some (Some i)
             \<and> stepInDir cx cy d = (dx, dy))"
          proof
            assume "\<exists>d i. layoutAt s1 cx cy = Some (Some (Belt, d)) \<and> itemAt s1 cx cy = Some (Some i)
               \<and> stepInDir cx cy d = (dx, dy)"
            then have "before (xa, ya) (cx, cy)" using first notA by (auto simp: l1 i1)
            moreover have "before (cx, cy) (xa, ya)" using late na notA by auto
            ultimately show False using before_asym by blast
          qed
        qed
      qed
      with q notA show ?thesis by auto
    qed
    from keep cells show "?Q (pre @ [(cx, cy)]) (s2, m2)" by simp
  qed
  then obtain s' m' where r: "beltPhase s = Some (s', m')"
      "cell m' dx dy = Some (if (xa, ya) \<in> set ?order then Some a else None)"
    by auto
  with inA show ?thesis by simp
qed

lemma beltPhase_blocked:
  assumes v: "validWorld s"
    and A: "layoutAt s xa ya = Some (Some (Belt, da))" "itemAt s xa ya = Some (Some a)"
      "stepInDir xa ya da = (dx, dy)"
    and D: "inBounds s dx dy" "layoutAt s dx dy = Some None" "itemAt s dx dy = Some (Some c)"
  shows "\<exists>s' m'. beltPhase s = Some (s', m') \<and> cell m' xa ya = Some (Some a)
      \<and> cell m' dx dy = Some (Some c)"
proof -
  let ?order = "scanOrder (width s) (height s)"
  let ?Q = "\<lambda>pre p. (\<forall>x y. layoutAt (fst p) x y = layoutAt s x y)
      \<and> cell (snd p) xa ya = Some (Some a) \<and> cell (snd p) dx dy = Some (Some c)"
  have "\<exists>s' m'. beltPhase s = Some (s', m') \<and> validWorld s' \<and> sameFrame s s' \<and> items s' = items s
        \<and> gridShape m' (width s) (height s) \<and> ?Q ?order (s', m')"
  proof (rule beltPhase_invariant [OF v])
    show "?Q [] (s, items s)"
      using A(2) D(3) by (simp add: itemAt_def)
  next
    fix pre cx cy post s1 m1 s2 m2
    assume f: "sameFrame s s1" and it: "items s1 = items s"
      and q: "?Q pre (s1, m1)"
      and st: "beltStep cx cy (s1, m1) = Some (s2, m2)"
    have i1: "itemAt s1 = itemAt s" using it by (simp add: itemAt_def fun_eq_iff)
    have l1: "layoutAt s1 x y = layoutAt s x y" for x y using q by simp
    have b1: "inBounds s1 = inBounds s" using f by (simp add: inBounds_def sameFrame_def fun_eq_iff)
    have keep: "\<forall>x y. layoutAt s2 x y = layoutAt s x y"
      using beltStep_layout [OF st] q by simp
    have cells: "cell m2 xa ya = Some (Some a) \<and> cell m2 dx dy = Some (Some c)"
    proof (cases "cx = xa \<and> cy = ya")
      case True
      from q have d: "cell m1 dx dy = Some (Some c)" by simp
      have "beltStep xa ya (s1, m1)
          = Some (s1, if Some c = None then setCell (setCell m1 dx dy (Some a)) xa ya None else m1)"
        using A D by (intro beltStep_move) (simp_all add: l1 i1 b1 d)
      with st True have "m2 = m1" by simp
      with q show ?thesis by simp
    next
      case notA: False
      have 1: "cell m2 xa ya = cell m1 xa ya"
        using notA q by (intro beltStep_elsewhere [OF st]) auto
      have 2: "cell m2 dx dy = cell m1 dx dy"
      proof (cases "cx = dx \<and> cy = dy")
        case True
        have "layoutAt s1 dx dy = Some None" using D(2) by (simp add: l1)
        then obtain t where "tileAt s1 dx dy = Some t" "building t = None"
          by (auto simp: layoutAt_def)
        with st True have "m2 = m1" by (auto simp: beltStep_def split: option.splits Option.bind_splits)
        then show ?thesis by simp
      next
        case False
        with q show ?thesis by (intro beltStep_elsewhere [OF st]) auto
      qed
      from 1 2 q show ?thesis by simp
    qed
    from keep cells show "?Q (pre @ [(cx, cy)]) (s2, m2)" by simp
  qed
  then show ?thesis by auto
qed

text \<open>
  Claim C2, amended. In the belt loop, the item of a belt whose destination is in bounds and
  holds no building or a belt moves onto the destination exactly when the destination is
  empty in the moved grid, and otherwise stays. For the whole belt loop, run on the world
  \<open>s\<close> that production leaves (the tick then returns its result): the loop keeps the item
  total; when the destination \<open>D\<close> of a loaded belt \<open>A\<close> holds no ground item as the loop
  starts and no loaded belt scanned before \<open>A\<close> feeds \<open>D\<close>, the item of \<open>A\<close> ends on \<open>D\<close> and
  every other loaded belt that feeds \<open>D\<close> keeps its item where it was; when \<open>D\<close> holds no
  building and holds a ground item as the loop starts, both that item and the item of \<open>A\<close> stay
  where they were.
\<close>

theorem belt_jam:
  "(\<forall>s0 x y d item nx ny m c.
       layoutAt s0 x y = Some (Some (Belt, d)) \<and> itemAt s0 x y = Some (Some item)
       \<and> stepInDir x y d = (nx, ny) \<and> inBounds s0 nx ny \<and> freeTile s0 nx ny \<and> cell m nx ny = Some c \<longrightarrow>
       beltStep x y (s0, m)
         = Some (s0, if c = None then setCell (setCell m nx ny (Some item)) x y None else m))
   \<and> (validWorld s \<longrightarrow>
       (\<exists>s' m'. beltPhase s = Some (s', m')
          \<and> (\<forall>w. productionPhase (w\<lparr>tick := tick w + 1\<rparr>) = Some s \<longrightarrow> stepGame w = Some (s'\<lparr>items := m'\<rparr>))
          \<and> totalItems (s'\<lparr>items := m'\<rparr>) = totalItems s
          \<and> (\<forall>xa ya a dx dy. feeds s (xa, ya) (dx, dy) a \<and> inBounds s dx dy \<and> freeTile s dx dy \<longrightarrow>
               (itemAt s dx dy = Some None
                  \<and> (\<forall>q i. feeds s q (dx, dy) i \<longrightarrow> q = (xa, ya) \<or> before (xa, ya) q) \<longrightarrow>
                    cell m' dx dy = Some (Some a)
                    \<and> (\<forall>xb yb b. feeds s (xb, yb) (dx, dy) b \<and> (xb \<noteq> xa \<or> yb \<noteq> ya) \<longrightarrow>
                          cell m' xb yb = Some (Some b)))
               \<and> (\<forall>c0. layoutAt s dx dy = Some None \<and> itemAt s dx dy = Some (Some c0) \<longrightarrow>
                    cell m' xa ya = Some (Some a) \<and> cell m' dx dy = Some (Some c0)))))"
proof (intro conjI allI impI)
  fix s0 x y d item nx ny c and m :: "ItemType option grid"
  assume "layoutAt s0 x y = Some (Some (Belt, d)) \<and> itemAt s0 x y = Some (Some item)
       \<and> stepInDir x y d = (nx, ny) \<and> inBounds s0 nx ny \<and> freeTile s0 nx ny \<and> cell m nx ny = Some c"
  then have a: "layoutAt s0 x y = Some (Some (Belt, d))" "itemAt s0 x y = Some (Some item)"
      "stepInDir x y d = (nx, ny)" "inBounds s0 nx ny"
      "layoutAt s0 nx ny = Some None \<or> (\<exists>d'. layoutAt s0 nx ny = Some (Some (Belt, d')))"
      "cell m nx ny = Some c"
    by (simp_all add: freeTile_iff)
  show "beltStep x y (s0, m)
         = Some (s0, if c = None then setCell (setCell m nx ny (Some item)) x y None else m)"
    by (rule beltStep_move [OF a])
next
  assume v: "validWorld s"
  from beltPhase_conserves [OF v] obtain s' m' where
    r: "beltPhase s = Some (s', m')" "totalItems (s'\<lparr>items := m'\<rparr>) = totalItems s"
    by blast
  have jam: "cell m' dx dy = Some (Some a)
        \<and> (\<forall>xb yb b. feeds s (xb, yb) (dx, dy) b \<and> (xb \<noteq> xa \<or> yb \<noteq> ya) \<longrightarrow> cell m' xb yb = Some (Some b))"
    if h: "feeds s (xa, ya) (dx, dy) a \<and> inBounds s dx dy \<and> freeTile s dx dy"
      and e: "itemAt s dx dy = Some None
          \<and> (\<forall>q i. feeds s q (dx, dy) i \<longrightarrow> q = (xa, ya) \<or> before (xa, ya) q)"
    for xa ya a dx dy
  proof -
    from h obtain da where A: "layoutAt s xa ya = Some (Some (Belt, da))" "itemAt s xa ya = Some (Some a)"
        "stepInDir xa ya da = (dx, dy)"
      by (auto simp: feeds_iff)
    from h have D: "inBounds s dx dy"
        "layoutAt s dx dy = Some None \<or> (\<exists>d. layoutAt s dx dy = Some (Some (Belt, d)))"
      by (simp_all add: freeTile_iff)
    have first: "\<forall>x y d i. layoutAt s x y = Some (Some (Belt, d)) \<and> itemAt s x y = Some (Some i)
        \<and> stepInDir x y d = (dx, dy) \<longrightarrow> (x = xa \<and> y = ya) \<or> before (xa, ya) (x, y)"
    proof (intro allI impI)
      fix x y d i
      assume "layoutAt s x y = Some (Some (Belt, d)) \<and> itemAt s x y = Some (Some i)
        \<and> stepInDir x y d = (dx, dy)"
      then have "feeds s (x, y) (dx, dy) i" unfolding feeds_iff by blast
      with e have "(x, y) = (xa, ya) \<or> before (xa, ya) (x, y)" by blast
      then show "(x = xa \<and> y = ya) \<or> before (xa, ya) (x, y)" by simp
    qed
    from e have D3: "itemAt s dx dy = Some None" by simp
    from beltPhase_arrives [OF v A D D3 first] r(1)
    have 1: "cell m' dx dy = Some (Some a)" by auto
    have 2: "cell m' xb yb = Some (Some b)"
      if "feeds s (xb, yb) (dx, dy) b \<and> (xb \<noteq> xa \<or> yb \<noteq> ya)" for xb yb b
    proof -
      from that obtain db where B: "layoutAt s xb yb = Some (Some (Belt, db))"
          "itemAt s xb yb = Some (Some b)" "stepInDir xb yb db = (dx, dy)"
        by (auto simp: feeds_iff)
      from that have AB: "xb \<noteq> xa \<or> yb \<noteq> ya" by simp
      from beltPhase_jam [OF v A B AB D D3 first] r(1) show ?thesis by auto
    qed
    from 1 2 show ?thesis by blast
  qed
  have blocked: "cell m' xa ya = Some (Some a) \<and> cell m' dx dy = Some (Some c0)"
    if h: "feeds s (xa, ya) (dx, dy) a \<and> inBounds s dx dy \<and> freeTile s dx dy"
      and e: "layoutAt s dx dy = Some None \<and> itemAt s dx dy = Some (Some c0)"
    for xa ya a dx dy c0
  proof -
    from h obtain da where A: "layoutAt s xa ya = Some (Some (Belt, da))" "itemAt s xa ya = Some (Some a)"
        "stepInDir xa ya da = (dx, dy)"
      by (auto simp: feeds_iff)
    from h e have D: "inBounds s dx dy" "layoutAt s dx dy = Some None" "itemAt s dx dy = Some (Some c0)"
      by simp_all
    from beltPhase_blocked [OF v A D] r(1) show ?thesis by auto
  qed
  show "\<exists>s' m'. beltPhase s = Some (s', m')
          \<and> (\<forall>w. productionPhase (w\<lparr>tick := tick w + 1\<rparr>) = Some s \<longrightarrow> stepGame w = Some (s'\<lparr>items := m'\<rparr>))
          \<and> totalItems (s'\<lparr>items := m'\<rparr>) = totalItems s
          \<and> (\<forall>xa ya a dx dy. feeds s (xa, ya) (dx, dy) a \<and> inBounds s dx dy \<and> freeTile s dx dy \<longrightarrow>
               (itemAt s dx dy = Some None
                  \<and> (\<forall>q i. feeds s q (dx, dy) i \<longrightarrow> q = (xa, ya) \<or> before (xa, ya) q) \<longrightarrow>
                    cell m' dx dy = Some (Some a)
                    \<and> (\<forall>xb yb b. feeds s (xb, yb) (dx, dy) b \<and> (xb \<noteq> xa \<or> yb \<noteq> ya) \<longrightarrow>
                          cell m' xb yb = Some (Some b)))
               \<and> (\<forall>c0. layoutAt s dx dy = Some None \<and> itemAt s dx dy = Some (Some c0) \<longrightarrow>
                    cell m' xa ya = Some (Some a) \<and> cell m' dx dy = Some (Some c0)))"
  proof (intro exI conjI allI impI)
    show "beltPhase s = Some (s', m')" by (rule r(1))
  next
    fix w
    assume "productionPhase (w\<lparr>tick := tick w + 1\<rparr>) = Some s"
    then show "stepGame w = Some (s'\<lparr>items := m'\<rparr>)" using r(1) by (rule stepGame_split)
  next
    show "totalItems (s'\<lparr>items := m'\<rparr>) = totalItems s" by (rule r(2))
  next
    fix xa ya a dx dy
    assume h: "feeds s (xa, ya) (dx, dy) a \<and> inBounds s dx dy \<and> freeTile s dx dy"
      and e: "itemAt s dx dy = Some None
          \<and> (\<forall>q i. feeds s q (dx, dy) i \<longrightarrow> q = (xa, ya) \<or> before (xa, ya) q)"
    from jam [OF h e] show "cell m' dx dy = Some (Some a)" by simp
    fix xb yb b
    assume "feeds s (xb, yb) (dx, dy) b \<and> (xb \<noteq> xa \<or> yb \<noteq> ya)"
    with jam [OF h e] show "cell m' xb yb = Some (Some b)" by blast
  next
    fix xa ya a dx dy c0
    assume h: "feeds s (xa, ya) (dx, dy) a \<and> inBounds s dx dy \<and> freeTile s dx dy"
      and e: "layoutAt s dx dy = Some None \<and> itemAt s dx dy = Some (Some c0)"
    from blocked [OF h e] show "cell m' xa ya = Some (Some a)" "cell m' dx dy = Some (Some c0)"
      by simp_all
  qed
qed

theorem belt_jam_witness:
  "validWorld (jamWorld\<lparr>tick := 1\<rparr>)
   \<and> productionPhase (jamWorld\<lparr>tick := tick jamWorld + 1\<rparr>) = Some (jamWorld\<lparr>tick := 1\<rparr>)
   \<and> feeds (jamWorld\<lparr>tick := 1\<rparr>) (0, 0) (1, 0) IronOre
   \<and> feeds (jamWorld\<lparr>tick := 1\<rparr>) (2, 0) (1, 0) CopperOre
   \<and> inBounds (jamWorld\<lparr>tick := 1\<rparr>) 1 0 \<and> freeTile (jamWorld\<lparr>tick := 1\<rparr>) 1 0
   \<and> itemAt (jamWorld\<lparr>tick := 1\<rparr>) 1 0 = Some None
   \<and> beltStep 0 0 (jamWorld\<lparr>tick := 1\<rparr>, items jamWorld)
       = Some (jamWorld\<lparr>tick := 1\<rparr>, setCell (setCell (items jamWorld) 1 0 (Some IronOre)) 0 0 None)
   \<and> (\<exists>w'. stepGame jamWorld = Some w' \<and> itemAt w' 1 0 = Some (Some IronOre)
        \<and> itemAt w' 2 0 = Some (Some CopperOre) \<and> totalItems w' = totalItems jamWorld)
   \<and> validWorld (blockedBeltWorld\<lparr>tick := 1\<rparr>)
   \<and> productionPhase (blockedBeltWorld\<lparr>tick := tick blockedBeltWorld + 1\<rparr>)
       = Some (blockedBeltWorld\<lparr>tick := 1\<rparr>)
   \<and> feeds (blockedBeltWorld\<lparr>tick := 1\<rparr>) (0, 0) (1, 0) IronOre
   \<and> layoutAt (blockedBeltWorld\<lparr>tick := 1\<rparr>) 1 0 = Some None
   \<and> itemAt (blockedBeltWorld\<lparr>tick := 1\<rparr>) 1 0 = Some (Some Gear)
   \<and> (\<exists>w'. stepGame blockedBeltWorld = Some w' \<and> itemAt w' 0 0 = Some (Some IronOre)
        \<and> itemAt w' 1 0 = Some (Some Gear))"
proof -
  let ?s = "jamWorld\<lparr>tick := 1\<rparr>" and ?b = "blockedBeltWorld\<lparr>tick := 1\<rparr>"
  have v: "validWorld ?s"
    by (simp add: validWorld_def gridShape_def jamWorld_def)
  have p: "productionPhase (jamWorld\<lparr>tick := tick jamWorld + 1\<rparr>) = Some ?s"
    by code_simp
  have l: "layoutAt ?s 0 0 = Some (Some (Belt, Right))" "layoutAt ?s 2 0 = Some (Some (Belt, Left))"
      "layoutAt ?s 1 0 = Some None"
    and i: "itemAt ?s 0 0 = Some (Some IronOre)" "itemAt ?s 2 0 = Some (Some CopperOre)"
      "itemAt ?s 1 0 = Some None"
    and b: "inBounds ?s 1 0"
    by (simp_all add: jamWorld_def layoutAt_def tileAt_def itemAt_def cell_def inBounds_def
        newBuilding_def emptyTile_def)
  have f: "feeds ?s (0, 0) (1, 0) IronOre" "feeds ?s (2, 0) (1, 0) CopperOre"
    using l i by (simp_all add: feeds_iff)
  have fr: "freeTile ?s 1 0" using l by (simp add: freeTile_iff)
  have first: "\<forall>q i. feeds ?s q (1, 0) i \<longrightarrow> q = (0, 0) \<or> before (0, 0) q"
    by (auto simp: feeds_def layoutAt_def tileAt_def cell_def before_def jamWorld_def
        split: if_splits option.splits)
  have c: "cell (items jamWorld) 1 0 = Some None" using i(3) by (simp add: itemAt_def)
  have t: "totalItems ?s = totalItems jamWorld"
    by (simp add: totalItems_def)
  note r = belt_jam [of ?s]
  have 1: "beltStep 0 0 (?s, items jamWorld)
       = Some (?s, setCell (setCell (items jamWorld) 1 0 (Some IronOre)) 0 0 None)"
    using r [THEN conjunct1, THEN spec [of _ ?s], THEN spec [of _ 0], THEN spec [of _ 0],
        THEN spec [of _ Right], THEN spec [of _ IronOre], THEN spec [of _ 1], THEN spec [of _ 0],
        THEN spec [of _ "items jamWorld"], THEN spec [of _ None]] l(1) i(1) b fr c
    by simp
  from r [THEN conjunct2, THEN mp, OF v] obtain s' m' where
    s': "\<forall>w. productionPhase (w\<lparr>tick := tick w + 1\<rparr>) = Some ?s \<longrightarrow> stepGame w = Some (s'\<lparr>items := m'\<rparr>)"
      "totalItems (s'\<lparr>items := m'\<rparr>) = totalItems ?s"
    and all: "\<forall>xa ya a dx dy. feeds ?s (xa, ya) (dx, dy) a \<and> inBounds ?s dx dy \<and> freeTile ?s dx dy \<longrightarrow>
               (itemAt ?s dx dy = Some None
                  \<and> (\<forall>q i. feeds ?s q (dx, dy) i \<longrightarrow> q = (xa, ya) \<or> before (xa, ya) q) \<longrightarrow>
                    cell m' dx dy = Some (Some a)
                    \<and> (\<forall>xb yb b. feeds ?s (xb, yb) (dx, dy) b \<and> (xb \<noteq> xa \<or> yb \<noteq> ya) \<longrightarrow>
                          cell m' xb yb = Some (Some b)))
               \<and> (\<forall>c0. layoutAt ?s dx dy = Some None \<and> itemAt ?s dx dy = Some (Some c0) \<longrightarrow>
                    cell m' xa ya = Some (Some a) \<and> cell m' dx dy = Some (Some c0))"
    by (elim exE conjE) (rule that)
  note a1 = all [THEN spec [of _ 0], THEN spec [of _ 0], THEN spec [of _ IronOre], THEN spec [of _ 1],
      THEN spec [of _ 0], THEN mp, THEN conjunct1, THEN mp]
  have d: "cell m' 1 0 = Some (Some IronOre)"
    and o: "\<forall>xb yb b. feeds ?s (xb, yb) (1, 0) b \<and> (xb \<noteq> 0 \<or> yb \<noteq> 0) \<longrightarrow> cell m' xb yb = Some (Some b)"
    using a1 f(1) b fr i(3) first by blast+
  from o [THEN spec [of _ 2], THEN spec [of _ 0], THEN spec [of _ CopperOre]] f(2)
  have e: "cell m' 2 0 = Some (Some CopperOre)" by simp
  from s'(1) [THEN spec [of _ jamWorld]] p have "stepGame jamWorld = Some (s'\<lparr>items := m'\<rparr>)" by simp
  with d e s'(2) t
  have 2: "\<exists>w'. stepGame jamWorld = Some w' \<and> itemAt w' 1 0 = Some (Some IronOre)
        \<and> itemAt w' 2 0 = Some (Some CopperOre) \<and> totalItems w' = totalItems jamWorld"
    by (simp add: itemAt_def)
  have vb: "validWorld ?b"
    by (simp add: validWorld_def gridShape_def blockedBeltWorld_def)
  have pb: "productionPhase (blockedBeltWorld\<lparr>tick := tick blockedBeltWorld + 1\<rparr>) = Some ?b"
    by code_simp
  have lb: "layoutAt ?b 0 0 = Some (Some (Belt, Right))" "layoutAt ?b 1 0 = Some None"
    and ib: "itemAt ?b 0 0 = Some (Some IronOre)" "itemAt ?b 1 0 = Some (Some Gear)"
    and bb: "inBounds ?b 1 0"
    by (simp_all add: blockedBeltWorld_def layoutAt_def tileAt_def itemAt_def cell_def inBounds_def
        newBuilding_def emptyTile_def)
  have fb: "feeds ?b (0, 0) (1, 0) IronOre" using lb ib by (simp add: feeds_iff)
  have frb: "freeTile ?b 1 0" using lb by (simp add: freeTile_iff)
  note rb = belt_jam [of ?b]
  from rb [THEN conjunct2, THEN mp, OF vb] obtain s'' m'' where
    sb: "\<forall>w. productionPhase (w\<lparr>tick := tick w + 1\<rparr>) = Some ?b \<longrightarrow> stepGame w = Some (s''\<lparr>items := m''\<rparr>)"
    and allb: "\<forall>xa ya a dx dy. feeds ?b (xa, ya) (dx, dy) a \<and> inBounds ?b dx dy \<and> freeTile ?b dx dy \<longrightarrow>
               (itemAt ?b dx dy = Some None
                  \<and> (\<forall>q i. feeds ?b q (dx, dy) i \<longrightarrow> q = (xa, ya) \<or> before (xa, ya) q) \<longrightarrow>
                    cell m'' dx dy = Some (Some a)
                    \<and> (\<forall>xb yb b. feeds ?b (xb, yb) (dx, dy) b \<and> (xb \<noteq> xa \<or> yb \<noteq> ya) \<longrightarrow>
                          cell m'' xb yb = Some (Some b)))
               \<and> (\<forall>c0. layoutAt ?b dx dy = Some None \<and> itemAt ?b dx dy = Some (Some c0) \<longrightarrow>
                    cell m'' xa ya = Some (Some a) \<and> cell m'' dx dy = Some (Some c0))"
    by (elim exE conjE) (rule that)
  note b1 = allb [THEN spec [of _ 0], THEN spec [of _ 0], THEN spec [of _ IronOre], THEN spec [of _ 1],
      THEN spec [of _ 0], THEN mp, THEN conjunct2, THEN spec [of _ Gear], THEN mp]
  have "cell m'' 0 0 = Some (Some IronOre) \<and> cell m'' 1 0 = Some (Some Gear)"
    using b1 fb bb frb lb(2) ib(2) by blast
  moreover from sb [THEN spec [of _ blockedBeltWorld]] pb
  have "stepGame blockedBeltWorld = Some (s''\<lparr>items := m''\<rparr>)" by simp
  ultimately have 3: "\<exists>w'. stepGame blockedBeltWorld = Some w' \<and> itemAt w' 0 0 = Some (Some IronOre)
        \<and> itemAt w' 1 0 = Some (Some Gear)"
    by (simp add: itemAt_def)
  from v p f b fr i(3) 1 2 vb pb fb lb(2) ib(2) 3 show ?thesis by simp
qed

text \<open>
  Claim C2 as stated fails: in \<open>crossingWorld\<close> the belts at (0,0) and (2,0) both feed (1,0),
  and (0,0) is scanned first. The tick leaves the iron ore on (0,0) and moves the copper ore
  of the belt scanned later onto (1,0), after the gear that was there has moved down.
\<close>

theorem belt_jam_counterexample:
  "stepGame crossingWorld
      = Some (crossingWorld\<lparr>tick := 1,
                             items := [[Some IronOre, Some CopperOre, None], [None, Some Gear, None]]\<rparr>)
   \<and> layoutAt crossingWorld 0 0 = Some (Some (Belt, Right)) \<and> stepInDir 0 0 Right = (1, 0)
   \<and> layoutAt crossingWorld 2 0 = Some (Some (Belt, Left)) \<and> stepInDir 2 0 Left = (1, 0)
   \<and> layoutAt crossingWorld 1 0 = Some (Some (Belt, Down))
   \<and> before (0, 0) (2, 0)"
  by code_simp

subsection \<open>Delivery from a belt into a building\<close>

lemma credits_iff:
  "credits s (x, y) i \<longleftrightarrow>
     (\<exists>d nx ny k d'. layoutAt s x y = Some (Some (Belt, d)) \<and> itemAt s x y = Some (Some i)
        \<and> stepInDir x y d = (nx, ny) \<and> inBounds s nx ny
        \<and> layoutAt s nx ny = Some (Some (k, d')) \<and> (k = Chest \<or> k = Hub))"
proof (cases "layoutAt s x y")
  case None
  then show ?thesis by (simp add: credits_def)
next
  case (Some l)
  note l = this
  show ?thesis
  proof (cases l)
    case None
    with l show ?thesis by (simp add: credits_def)
  next
    case (Some kd)
    obtain k d where kd: "kd = (k, d)" by (cases kd)
    obtain nx ny where n: "stepInDir x y d = (nx, ny)" by (cases "stepInDir x y d")
    note l = l [unfolded Some kd]
    show ?thesis
    proof (cases "layoutAt s nx ny")
      case None
      with l n show ?thesis by (auto simp: credits_def)
    next
      case (Some l')
      with l n show ?thesis by (cases l') (auto simp: credits_def)
    qed
  qed
qed

lemma feeds_cong:
  assumes "\<And>x y. layoutAt s' x y = layoutAt s x y" and "items s' = items s"
  shows "feeds s' = feeds s"
proof -
  have i: "itemAt s' = itemAt s" using assms(2) by (simp add: itemAt_def fun_eq_iff)
  have "feeds s' (x, y) q k = feeds s (x, y) q k" for x y q k
    by (simp add: feeds_iff assms(1) i)
  then show ?thesis by (auto simp: fun_eq_iff)
qed

lemma credits_cong:
  assumes "\<And>x y. layoutAt s' x y = layoutAt s x y" and "items s' = items s" and "sameFrame s s'"
  shows "credits s' = credits s"
proof -
  have i: "itemAt s' = itemAt s" using assms(2) by (simp add: itemAt_def fun_eq_iff)
  have b: "inBounds s' = inBounds s" using assms(3) by (simp add: inBounds_def sameFrame_def fun_eq_iff)
  have "credits s' (x, y) k = credits s (x, y) k" for x y k
    by (simp add: credits_iff assms(1) i b)
  then show ?thesis by (auto simp: fun_eq_iff)
qed

lemma beltStep_deliver:
  assumes "layoutAt s x y = Some (Some (Belt, d))" and "itemAt s x y = Some (Some item)"
    and "stepInDir x y d = (nx, ny)" and "inBounds s nx ny"
    and "tileAt s nx ny = Some dt" and "building dt = Some db" and "btype db \<noteq> Belt"
  shows "beltStep x y (s, m) = Some (deliver s m x y item nx ny dt db)"
proof -
  from assms(1) obtain t b where "tileAt s x y = Some t" "building t = Some b" "btype b = Belt" "dir b = d"
    unfolding layoutAt_Some by blast
  with assms(2-) show ?thesis by (simp add: beltStep_def)
qed

lemma beltStep_credit:
  assumes st: "beltStep x y (s, m) = Some (s', m')"
  shows "count_of (inventory s') k = count_of (inventory s) k + (if credits s (x, y) k then 1 else 0)"
proof (cases "credits s (x, y) k")
  case True
  then obtain d nx ny k' d' where c: "layoutAt s x y = Some (Some (Belt, d))" "itemAt s x y = Some (Some k)"
      "stepInDir x y d = (nx, ny)" "inBounds s nx ny" "layoutAt s nx ny = Some (Some (k', d'))"
      "k' = Chest \<or> k' = Hub"
    unfolding credits_iff by blast
  from c(5) obtain dt db where dt: "tileAt s nx ny = Some dt" "building dt = Some db" "btype db = k'"
    unfolding layoutAt_Some by blast
  from c(6) dt(3) have nb: "btype db \<noteq> Belt" by auto
  from beltStep_deliver [OF c(1-4) dt(1,2) nb, of m] st c(6) dt(3)
  have "s' = s\<lparr>inventory := add_count (inventory s) k 1\<rparr>" by (auto simp: deliver_def)
  with True show ?thesis by (simp add: count_of_add_count)
next
  case False
  from st have "count_of (inventory s') k = count_of (inventory s) k"
  proof (cases rule: beltStep_cases)
    case (deliver item t b nx ny dt db)
    from deliver(10) show ?thesis
    proof (cases rule: deliver_cases)
      case credit
      have "credits s (x, y) item"
        unfolding credits_iff using deliver(1-8) credit(1) by (auto simp: layoutAt_tile)
      with False have "item \<noteq> k" by auto
      with credit show ?thesis by (simp add: count_of_add_count)
    qed simp_all
  qed simp_all
  with False show ?thesis by simp
qed

lemma beltPhase_credited:
  assumes v: "validWorld s"
  shows "\<exists>s' m'. beltPhase s = Some (s', m')
      \<and> (\<forall>k. count_of (inventory s') k = count_of (inventory s) k + credited s k)"
proof -
  let ?order = "scanOrder (width s) (height s)"
  let ?Q = "\<lambda>pre p. (\<forall>x y. layoutAt (fst p) x y = layoutAt s x y)
      \<and> (\<forall>k. count_of (inventory (fst p)) k
               = count_of (inventory s) k + int (length (filter (\<lambda>q. credits s q k) pre)))"
  have "\<exists>s' m'. beltPhase s = Some (s', m') \<and> validWorld s' \<and> sameFrame s s' \<and> items s' = items s
        \<and> gridShape m' (width s) (height s) \<and> ?Q ?order (s', m')"
  proof (rule beltPhase_invariant [OF v])
    show "?Q [] (s, items s)" by simp
  next
    fix pre cx cy post s1 m1 s2 m2
    assume f: "sameFrame s s1" and it: "items s1 = items s"
      and q: "?Q pre (s1, m1)"
      and st: "beltStep cx cy (s1, m1) = Some (s2, m2)"
    have l1: "layoutAt s1 x y = layoutAt s x y" for x y using q by simp
    have c: "credits s1 = credits s" using l1 it f by (rule credits_cong)
    have keep: "\<forall>x y. layoutAt s2 x y = layoutAt s x y"
      using beltStep_layout [OF st] q by simp
    have "\<forall>k. count_of (inventory s2) k
               = count_of (inventory s) k + int (length (filter (\<lambda>q. credits s q k) (pre @ [(cx, cy)])))"
      using beltStep_credit [OF st] q by (simp add: c)
    with keep show "?Q (pre @ [(cx, cy)]) (s2, m2)" by simp
  qed
  then show ?thesis by (auto simp: credited_def)
qed

lemma beltStep_into:
  assumes st: "beltStep cx cy (s, m) = Some (s', m')" and p: "px \<noteq> cx \<or> py \<noteq> cy"
  shows "cell m' px py = cell m px py
     \<or> (cell m px py = Some None \<and> (\<exists>i. feeds s (cx, cy) (px, py) i \<and> cell m' px py = Some (Some i)))"
  using st
proof (cases rule: beltStep_cases)
  case idle
  then show ?thesis by simp
next
  case (deliver item t b nx ny dt db)
  from deliver(10) have "m' = m \<or> m' = setCell m cx cy None"
    by (cases rule: deliver_cases) simp_all
  with p show ?thesis by (auto simp: cell_setCell)
next
  case (move item t b nx ny dt)
  have f: "feeds s (cx, cy) (nx, ny) item"
    unfolding feeds_iff using move(1-5) by (auto simp: layoutAt_tile)
  show ?thesis
  proof (cases "px = nx \<and> py = ny")
    case True
    with move(9,11) p f show ?thesis by (auto simp: cell_setCell)
  next
    case False
    with move(11) p show ?thesis by (auto simp: cell_setCell)
  qed
qed

lemma beltStep_furnace:
  assumes st: "beltStep cx cy (s, m) = Some (s', m')"
    and F: "tileAt s fx fy = Some ft" "building ft = Some fb" "btype fb = Furnace"
  shows "tileAt s' fx fy = Some ft
     \<or> (\<exists>i. feeds s (cx, cy) (fx, fy) i \<and> (i = IronOre \<or> i = CopperOre)
          \<and> count_of (buffer fb) IronOre = 0 \<and> count_of (buffer fb) CopperOre = 0
          \<and> tileAt s' fx fy = Some (ft\<lparr>building := Some (fb\<lparr>buffer := add_count (buffer fb) i 1, progress := 0\<rparr>)\<rparr>))"
  using st
proof (cases rule: beltStep_cases)
  case idle
  with F show ?thesis by simp
next
  case (move item t b nx ny dt)
  with F show ?thesis by simp
next
  case (deliver item t b nx ny dt db)
  have f: "feeds s (cx, cy) (nx, ny) item"
    unfolding feeds_iff using deliver(1-5) by (auto simp: layoutAt_tile)
  show ?thesis
  proof (cases "nx = fx \<and> ny = fy")
    case True
    with deliver(7,8) F have e: "dt = ft" "db = fb" by simp_all
    from deliver(10) True F f show ?thesis
      unfolding e by (auto simp: deliver_def split: if_splits)
  next
    case False
    from deliver(10) show ?thesis
      using False F deliver(7) by (cases rule: deliver_cases) auto
  qed
qed

lemma scanOrder_earlier:
  assumes sp: "scanOrder w h = pre @ p # post" and "q \<in> set (scanOrder w h)" and "before q p"
  shows "q \<in> set pre"
proof -
  from assms(3) have "q \<noteq> p" by auto
  moreover have "q \<notin> set post" using scanOrder_split(4) [OF sp, of q] assms(3) before_asym by blast
  ultimately show ?thesis using assms(2) unfolding sp by auto
qed

lemma scanOrder_later:
  assumes sp: "scanOrder w h = pre @ p # post" and "q \<in> set (scanOrder w h)" and "q \<notin> set pre" and "q \<noteq> p"
  shows "before p q"
  using scanOrder_split(4) [OF sp, of q] assms(2-) unfolding sp by auto

lemma feeds_scanOrder:
  assumes "validWorld s" and "feeds s q p i"
  shows "q \<in> set (scanOrder (width s) (height s))"
proof -
  obtain qx qy where q: "q = (qx, qy)" by (cases q)
  from assms(2) obtain d where "layoutAt s qx qy = Some (Some (Belt, d))" unfolding q feeds_iff by blast
  from layoutAt_inBounds [OF assms(1) this] show ?thesis
    unfolding q by (simp add: set_scanOrder inBounds_def)
qed

lemma beltStep_taken:
  assumes sp: "scanOrder w h = pre @ (cx, cy) # post" and st: "beltStep cx cy (s1, m1) = Some (s2, m2)"
    and fe: "feeds s1 = feeds s" and ne: "cx \<noteq> x \<or> cy \<noteq> y" and inpre: "(x, y) \<in> set pre"
    and t: "cell m1 x y = Some None
        \<or> (\<exists>q i. feeds s q (x, y) i \<and> before (x, y) q \<and> cell m1 x y = Some (Some i))"
  shows "cell m2 x y = Some None
        \<or> (\<exists>q i. feeds s q (x, y) i \<and> before (x, y) q \<and> cell m2 x y = Some (Some i))"
proof -
  have b: "before (x, y) (cx, cy)" using scanOrder_split(3) [OF sp inpre] .
  from ne have "x \<noteq> cx \<or> y \<noteq> cy" by auto
  from beltStep_into [OF st this] show ?thesis
  proof
    assume "cell m2 x y = cell m1 x y"
    with t show ?thesis by simp
  next
    assume "cell m1 x y = Some None \<and> (\<exists>i. feeds s1 (cx, cy) (x, y) i \<and> cell m2 x y = Some (Some i))"
    with b show ?thesis unfolding fe by blast
  qed
qed

lemma beltStep_stays:
  assumes st: "beltStep cx cy (s1, m1) = Some (s2, m2)" and ne: "cx \<noteq> x \<or> cy \<noteq> y"
    and c: "cell m1 x y = Some (Some item)"
  shows "cell m2 x y = Some (Some item)"
proof -
  from ne have "x \<noteq> cx \<or> y \<noteq> cy" by auto
  from beltStep_into [OF st this] c show ?thesis by auto
qed

lemma beltPhase_taken:
  assumes v: "validWorld s"
    and A: "layoutAt s x y = Some (Some (Belt, d))" "itemAt s x y = Some (Some item)"
      "stepInDir x y d = (nx, ny)" "inBounds s nx ny"
    and D: "tileAt s nx ny = Some dt" "building dt = Some db" "btype db = Chest \<or> btype db = Hub"
  shows "\<exists>s' m'. beltPhase s = Some (s', m')
      \<and> (cell m' x y = Some None
           \<or> (\<exists>q i. feeds s q (x, y) i \<and> before (x, y) q \<and> cell m' x y = Some (Some i)))"
proof -
  let ?order = "scanOrder (width s) (height s)"
  let ?T = "\<lambda>m. cell m x y = Some None
           \<or> (\<exists>q i. feeds s q (x, y) i \<and> before (x, y) q \<and> cell m x y = Some (Some i))"
  let ?Q = "\<lambda>pre p. (\<forall>x y. layoutAt (fst p) x y = layoutAt s x y) \<and> tileAt (fst p) nx ny = Some dt
      \<and> ((x, y) \<in> set pre \<longrightarrow> ?T (snd p))"
  have inA: "(x, y) \<in> set ?order"
    using layoutAt_inBounds [OF v A(1)] by (simp add: set_scanOrder inBounds_def)
  have nb: "btype db \<noteq> Belt" using D(3) by auto
  have "\<exists>s' m'. beltPhase s = Some (s', m') \<and> validWorld s' \<and> sameFrame s s' \<and> items s' = items s
        \<and> gridShape m' (width s) (height s) \<and> ?Q ?order (s', m')"
  proof (rule beltPhase_invariant [OF v])
    show "?Q [] (s, items s)" using D(1) by simp
  next
    fix pre cx cy post s1 m1 s2 m2
    assume sp: "?order = pre @ (cx, cy) # post"
      and f: "sameFrame s s1" and it: "items s1 = items s"
      and u: "unmoved pre s1 m1" and q: "?Q pre (s1, m1)"
      and st: "beltStep cx cy (s1, m1) = Some (s2, m2)"
    have i1: "itemAt s1 = itemAt s" using it by (simp add: itemAt_def fun_eq_iff)
    have l1: "layoutAt s1 x y = layoutAt s x y" for x y using q by simp
    have b1: "inBounds s1 = inBounds s" using f by (simp add: inBounds_def sameFrame_def fun_eq_iff)
    have fe: "feeds s1 = feeds s" using l1 it by (rule feeds_cong)
    have t1: "tileAt s1 nx ny = Some dt" using q by simp
    have keep: "\<forall>x y. layoutAt s2 x y = layoutAt s x y"
      using beltStep_layout [OF st] q by simp
    have tile: "tileAt s2 nx ny = Some dt"
      using D(2,3) by (intro beltStep_tile [OF st t1]) auto
    have cells: "(x, y) \<in> set (pre @ [(cx, cy)]) \<longrightarrow> ?T m2"
    proof (cases "cx = x \<and> cy = y")
      case True
      then have np: "(x, y) \<notin> set pre" using scanOrder_split(1) [OF sp] by simp
      with u A(2) have c: "cell m1 x y = Some (Some item)" by (simp add: unmoved_def i1)
      have "beltStep x y (s1, m1) = Some (deliver s1 m1 x y item nx ny dt db)"
        using A D(2) nb t1 by (intro beltStep_deliver) (simp_all add: l1 i1 b1)
      with st True D(3) have "m2 = setCell m1 x y None" by (auto simp: deliver_def)
      with c show ?thesis by (simp add: cell_setCell)
    next
      case False
      then have ne: "cx \<noteq> x \<or> cy \<noteq> y" by auto
      show ?thesis
      proof
        assume "(x, y) \<in> set (pre @ [(cx, cy)])"
        with False have inpre: "(x, y) \<in> set pre" by auto
        with q have "?T m1" by simp
        with beltStep_taken [OF sp st fe ne inpre] show "?T m2" by blast
      qed
    qed
    from keep tile cells show "?Q (pre @ [(cx, cy)]) (s2, m2)" by simp
  qed
  then obtain s' m' where r: "beltPhase s = Some (s', m')" "?Q ?order (s', m')" by blast
  from r(2) inA have "?T m'" by simp
  with r(1) show ?thesis by blast
qed

lemma beltPhase_mine:
  assumes v: "validWorld s"
    and A: "layoutAt s x y = Some (Some (Belt, d))" "itemAt s x y = Some (Some item)"
      "stepInDir x y d = (nx, ny)" "inBounds s nx ny"
    and D: "tileAt s nx ny = Some dt" "building dt = Some db" "btype db = Mine"
  shows "\<exists>s' m'. beltPhase s = Some (s', m') \<and> cell m' x y = Some (Some item) \<and> tileAt s' nx ny = Some dt"
proof -
  let ?order = "scanOrder (width s) (height s)"
  let ?Q = "\<lambda>pre p. (\<forall>x y. layoutAt (fst p) x y = layoutAt s x y) \<and> tileAt (fst p) nx ny = Some dt
      \<and> cell (snd p) x y = Some (Some item)"
  have nb: "btype db \<noteq> Belt" using D(3) by auto
  have "\<exists>s' m'. beltPhase s = Some (s', m') \<and> validWorld s' \<and> sameFrame s s' \<and> items s' = items s
        \<and> gridShape m' (width s) (height s) \<and> ?Q ?order (s', m')"
  proof (rule beltPhase_invariant [OF v])
    show "?Q [] (s, items s)" using D(1) A(2) by (simp add: itemAt_def)
  next
    fix pre cx cy post s1 m1 s2 m2
    assume sp: "?order = pre @ (cx, cy) # post"
      and f: "sameFrame s s1" and it: "items s1 = items s"
      and q: "?Q pre (s1, m1)"
      and st: "beltStep cx cy (s1, m1) = Some (s2, m2)"
    have i1: "itemAt s1 = itemAt s" using it by (simp add: itemAt_def fun_eq_iff)
    have l1: "layoutAt s1 x y = layoutAt s x y" for x y using q by simp
    have b1: "inBounds s1 = inBounds s" using f by (simp add: inBounds_def sameFrame_def fun_eq_iff)
    have t1: "tileAt s1 nx ny = Some dt" using q by simp
    have c: "cell m1 x y = Some (Some item)" using q by simp
    have keep: "\<forall>x y. layoutAt s2 x y = layoutAt s x y"
      using beltStep_layout [OF st] q by simp
    have tile: "tileAt s2 nx ny = Some dt"
      using D(2,3) by (intro beltStep_tile [OF st t1]) auto
    have cells: "cell m2 x y = Some (Some item)"
    proof (cases "cx = x \<and> cy = y")
      case True
      have "beltStep x y (s1, m1) = Some (deliver s1 m1 x y item nx ny dt db)"
        using A D(2) nb t1 by (intro beltStep_deliver) (simp_all add: l1 i1 b1)
      with st True D(3) have "m2 = m1" by (auto simp: deliver_def)
      with c show ?thesis by simp
    next
      case False
      then have "cx \<noteq> x \<or> cy \<noteq> y" by auto
      from beltStep_stays [OF st this c] show ?thesis .
    qed
    from keep tile cells show "?Q (pre @ [(cx, cy)]) (s2, m2)" by simp
  qed
  then show ?thesis by auto
qed

lemma beltPhase_furnace_accept:
  assumes v: "validWorld s"
    and A: "layoutAt s x y = Some (Some (Belt, d))" "itemAt s x y = Some (Some item)"
      "stepInDir x y d = (nx, ny)" "inBounds s nx ny"
    and D: "tileAt s nx ny = Some dt" "building dt = Some db" "btype db = Furnace"
    and ore: "item = IronOre \<or> item = CopperOre"
    and free: "count_of (buffer db) IronOre = 0" "count_of (buffer db) CopperOre = 0"
    and first: "\<not> (\<exists>q i. feeds s q (nx, ny) i \<and> (i = IronOre \<or> i = CopperOre) \<and> before q (x, y))"
  shows "\<exists>s' m'. beltPhase s = Some (s', m')
      \<and> tileAt s' nx ny = Some (dt\<lparr>building := Some (db\<lparr>buffer := add_count (buffer db) item 1, progress := 0\<rparr>)\<rparr>)
      \<and> (cell m' x y = Some None
           \<or> (\<exists>q i. feeds s q (x, y) i \<and> before (x, y) q \<and> cell m' x y = Some (Some i)))"
proof -
  let ?order = "scanOrder (width s) (height s)"
  let ?db' = "db\<lparr>buffer := add_count (buffer db) item 1, progress := 0\<rparr>"
  let ?dt' = "dt\<lparr>building := Some ?db'\<rparr>"
  let ?T = "\<lambda>m. cell m x y = Some None
           \<or> (\<exists>q i. feeds s q (x, y) i \<and> before (x, y) q \<and> cell m x y = Some (Some i))"
  let ?Q = "\<lambda>pre p. (\<forall>x y. layoutAt (fst p) x y = layoutAt s x y)
      \<and> tileAt (fst p) nx ny = Some (if (x, y) \<in> set pre then ?dt' else dt)
      \<and> ((x, y) \<in> set pre \<longrightarrow> ?T (snd p))"
  have inA: "(x, y) \<in> set ?order"
    using layoutAt_inBounds [OF v A(1)] by (simp add: set_scanOrder inBounds_def)
  have nb: "btype db \<noteq> Belt" using D(3) by auto
  have full: "count_of (buffer ?db') IronOre \<noteq> 0 \<or> count_of (buffer ?db') CopperOre \<noteq> 0"
    using ore free by (auto simp: count_of_add_count)
  have "\<exists>s' m'. beltPhase s = Some (s', m') \<and> validWorld s' \<and> sameFrame s s' \<and> items s' = items s
        \<and> gridShape m' (width s) (height s) \<and> ?Q ?order (s', m')"
  proof (rule beltPhase_invariant [OF v])
    show "?Q [] (s, items s)" using D(1) by simp
  next
    fix pre cx cy post s1 m1 s2 m2
    assume sp: "?order = pre @ (cx, cy) # post"
      and f: "sameFrame s s1" and it: "items s1 = items s"
      and u: "unmoved pre s1 m1" and q: "?Q pre (s1, m1)"
      and st: "beltStep cx cy (s1, m1) = Some (s2, m2)"
    have i1: "itemAt s1 = itemAt s" using it by (simp add: itemAt_def fun_eq_iff)
    have l1: "layoutAt s1 x y = layoutAt s x y" for x y using q by simp
    have b1: "inBounds s1 = inBounds s" using f by (simp add: inBounds_def sameFrame_def fun_eq_iff)
    have fe: "feeds s1 = feeds s" using l1 it by (rule feeds_cong)
    have keep: "\<forall>x y. layoutAt s2 x y = layoutAt s x y"
      using beltStep_layout [OF st] q by simp
    have both: "tileAt s2 nx ny = Some (if (x, y) \<in> set (pre @ [(cx, cy)]) then ?dt' else dt)
        \<and> ((x, y) \<in> set (pre @ [(cx, cy)]) \<longrightarrow> ?T m2)"
    proof (cases "cx = x \<and> cy = y")
      case True
      then have np: "(x, y) \<notin> set pre" using scanOrder_split(1) [OF sp] by simp
      with q have t1: "tileAt s1 nx ny = Some dt" by simp
      from np u A(2) have c: "cell m1 x y = Some (Some item)" by (simp add: unmoved_def i1)
      have "beltStep x y (s1, m1) = Some (deliver s1 m1 x y item nx ny dt db)"
        using A D(2) nb t1 by (intro beltStep_deliver) (simp_all add: l1 i1 b1)
      with st True D(3) ore free have "s2 = setTile s1 nx ny ?dt'" "m2 = setCell m1 x y None"
        by (auto simp: deliver_def)
      with c t1 True show ?thesis by (simp add: cell_setCell)
    next
      case False
      then have ne: "cx \<noteq> x \<or> cy \<noteq> y" by auto
      have tile: "tileAt s2 nx ny = tileAt s1 nx ny"
      proof (cases "(x, y) \<in> set pre")
        case True
        with q have t1: "tileAt s1 nx ny = Some ?dt'" by simp
        have "building ?dt' = Some ?db'" "btype ?db' = Furnace" using D(3) by simp_all
        from beltStep_furnace [OF st t1 this] full t1 show ?thesis by auto
      next
        case np: False
        with q have t1: "tileAt s1 nx ny = Some dt" by simp
        have "before (cx, cy) (x, y)"
          using scanOrder_later [OF sp inA np] False by auto
        with first have "\<not> (\<exists>i. feeds s (cx, cy) (nx, ny) i \<and> (i = IronOre \<or> i = CopperOre))" by blast
        with beltStep_furnace [OF st t1 D(2,3)] t1 show ?thesis unfolding fe by auto
      qed
      have "(x, y) \<in> set pre \<longrightarrow> ?T m2"
      proof
        assume inpre: "(x, y) \<in> set pre"
        with q have "?T m1" by simp
        with beltStep_taken [OF sp st fe ne inpre] show "?T m2" by blast
      qed
      with tile q False show ?thesis by auto
    qed
    from keep both show "?Q (pre @ [(cx, cy)]) (s2, m2)" by simp
  qed
  then obtain s' m' where r: "beltPhase s = Some (s', m')" "?Q ?order (s', m')" by blast
  from r(2) inA have "tileAt s' nx ny = Some ?dt'" "?T m'" by simp_all
  with r(1) show ?thesis by blast
qed

lemma beltPhase_furnace_reject:
  assumes v: "validWorld s"
    and A: "layoutAt s x y = Some (Some (Belt, d))" "itemAt s x y = Some (Some item)"
      "stepInDir x y d = (nx, ny)" "inBounds s nx ny"
    and D: "tileAt s nx ny = Some dt" "building dt = Some db" "btype db = Furnace"
    and rej: "\<not> (item = IronOre \<or> item = CopperOre)
        \<or> count_of (buffer db) IronOre \<noteq> 0 \<or> count_of (buffer db) CopperOre \<noteq> 0
        \<or> (\<exists>q i. feeds s q (nx, ny) i \<and> (i = IronOre \<or> i = CopperOre) \<and> before q (x, y))"
  shows "\<exists>s' m'. beltPhase s = Some (s', m') \<and> cell m' x y = Some (Some item)"
proof -
  let ?order = "scanOrder (width s) (height s)"
  let ?full = "\<lambda>b. count_of (buffer b) IronOre \<noteq> 0 \<or> count_of (buffer b) CopperOre \<noteq> 0"
  let ?fed = "\<lambda>pre. \<exists>q i. q \<in> set pre \<and> feeds s q (nx, ny) i \<and> (i = IronOre \<or> i = CopperOre)"
  let ?Q = "\<lambda>pre p. (\<forall>x y. layoutAt (fst p) x y = layoutAt s x y)
      \<and> cell (snd p) x y = Some (Some item)
      \<and> (\<exists>ft fb. tileAt (fst p) nx ny = Some ft \<and> building ft = Some fb \<and> btype fb = Furnace
            \<and> (?full db \<or> ?fed pre \<longrightarrow> ?full fb))"
  have "\<exists>s' m'. beltPhase s = Some (s', m') \<and> validWorld s' \<and> sameFrame s s' \<and> items s' = items s
        \<and> gridShape m' (width s) (height s) \<and> ?Q ?order (s', m')"
  proof (rule beltPhase_invariant [OF v])
    show "?Q [] (s, items s)" using D A(2) by (simp add: itemAt_def)
  next
    fix pre cx cy post s1 m1 s2 m2
    assume sp: "?order = pre @ (cx, cy) # post"
      and f: "sameFrame s s1" and it: "items s1 = items s"
      and q: "?Q pre (s1, m1)"
      and st: "beltStep cx cy (s1, m1) = Some (s2, m2)"
    have i1: "itemAt s1 = itemAt s" using it by (simp add: itemAt_def fun_eq_iff)
    have l1: "layoutAt s1 x y = layoutAt s x y" for x y using q by simp
    have b1: "inBounds s1 = inBounds s" using f by (simp add: inBounds_def sameFrame_def fun_eq_iff)
    have fe: "feeds s1 = feeds s" using l1 it by (rule feeds_cong)
    have c: "cell m1 x y = Some (Some item)" using q by simp
    from q obtain ft fb where F: "tileAt s1 nx ny = Some ft" "building ft = Some fb" "btype fb = Furnace"
        and h: "?full db \<or> ?fed pre \<longrightarrow> ?full fb"
      unfolding fst_conv snd_conv by blast
    have nbf: "btype fb \<noteq> Belt" using F(3) by auto
    have keep: "\<forall>x y. layoutAt s2 x y = layoutAt s x y"
      using beltStep_layout [OF st] q by simp
    have tile: "\<exists>ft' fb'. tileAt s2 nx ny = Some ft' \<and> building ft' = Some fb' \<and> btype fb' = Furnace
            \<and> (?full db \<or> ?fed (pre @ [(cx, cy)]) \<longrightarrow> ?full fb')"
    proof (cases "\<exists>i. feeds s (cx, cy) (nx, ny) i \<and> (i = IronOre \<or> i = CopperOre)")
      case True
      then obtain i where i: "feeds s (cx, cy) (nx, ny) i" "i = IronOre \<or> i = CopperOre" by blast
      from i(1) obtain dc where C: "layoutAt s cx cy = Some (Some (Belt, dc))" "itemAt s cx cy = Some (Some i)"
          "stepInDir cx cy dc = (nx, ny)"
        unfolding feeds_iff by blast
      have "beltStep cx cy (s1, m1) = Some (deliver s1 m1 cx cy i nx ny ft fb)"
        using C A(4) F(1,2) nbf by (intro beltStep_deliver) (simp_all add: l1 i1 b1)
      with st have d: "(s2, m2) = deliver s1 m1 cx cy i nx ny ft fb" by simp
      show ?thesis
      proof (cases "?full fb")
        case True
        with d F(3) have "s2 = s1" by (auto simp: deliver_def)
        with F True show ?thesis by auto
      next
        case False
        let ?fb' = "fb\<lparr>buffer := add_count (buffer fb) i 1, progress := 0\<rparr>"
        from False d F(3) i(2) have "s2 = setTile s1 nx ny (ft\<lparr>building := Some ?fb'\<rparr>)"
          by (auto simp: deliver_def)
        with F(1) have "tileAt s2 nx ny = Some (ft\<lparr>building := Some ?fb'\<rparr>)" by simp
        moreover have "?full ?fb'" using False i(2) by (auto simp: count_of_add_count)
        moreover have "btype ?fb' = Furnace" using F(3) by simp
        ultimately show ?thesis by auto
      qed
    next
      case False
      with beltStep_furnace [OF st F] have t2: "tileAt s2 nx ny = Some ft" unfolding fe by auto
      from False have "?fed (pre @ [(cx, cy)]) \<longrightarrow> ?fed pre" by auto
      with h have "?full db \<or> ?fed (pre @ [(cx, cy)]) \<longrightarrow> ?full fb" by blast
      with t2 F show ?thesis by auto
    qed
    have cells: "cell m2 x y = Some (Some item)"
    proof (cases "cx = x \<and> cy = y")
      case True
      have "beltStep x y (s1, m1) = Some (deliver s1 m1 x y item nx ny ft fb)"
        using A F(1,2) nbf by (intro beltStep_deliver) (simp_all add: l1 i1 b1)
      with st True have d: "(s2, m2) = deliver s1 m1 x y item nx ny ft fb" by simp
      have "\<not> (item = IronOre \<or> item = CopperOre) \<or> ?full fb"
      proof (cases "item = IronOre \<or> item = CopperOre")
        case ore: True
        from rej ore have "?full db
            \<or> (\<exists>q i. feeds s q (nx, ny) i \<and> (i = IronOre \<or> i = CopperOre) \<and> before q (x, y))"
          by blast
        moreover have "?fed pre"
          if "\<exists>q i. feeds s q (nx, ny) i \<and> (i = IronOre \<or> i = CopperOre) \<and> before q (x, y)"
        proof -
          from that obtain q i where qi: "feeds s q (nx, ny) i" "i = IronOre \<or> i = CopperOre" "before q (x, y)"
            by blast
          have "q \<in> set ?order" using v qi(1) by (rule feeds_scanOrder)
          with sp True qi(3) have "q \<in> set pre" by (intro scanOrder_earlier [of _ _ pre "(x, y)" post]) auto
          with qi show ?thesis by blast
        qed
        ultimately have "?full fb" using h by blast
        then show ?thesis by simp
      qed simp
      with d F(3) have "m2 = m1" by (auto simp: deliver_def)
      with c show ?thesis by simp
    next
      case False
      then have "cx \<noteq> x \<or> cy \<noteq> y" by auto
      from beltStep_stays [OF st this c] show ?thesis .
    qed
    from keep tile cells show "?Q (pre @ [(cx, cy)]) (s2, m2)" by simp
  qed
  then show ?thesis by auto
qed

text \<open>
  Claim C6. Take the world \<open>s\<close> on which the belt loop runs (the world production leaves; the
  tick returns the result of the loop), and in it a belt at \<open>(x, y)\<close> that carries \<open>item\<close> and
  whose destination \<open>(nx, ny)\<close> is in bounds and holds the building \<open>db\<close>, not a belt.

  The step of the loop at \<open>(x, y)\<close>, in a moved grid that still holds the item there: into a
  chest or a hub the item is credited to the inventory and the source slot is emptied; a
  furnace takes the item exactly when it is iron ore or copper ore and the furnace buffer holds
  no ore of either kind, and then the buffer gains the item, the progress is 0 and the source
  slot is emptied, while otherwise nothing changes; into a mine nothing changes.

  The whole loop: every inventory count grows by the number of loaded belts that face a chest
  or a hub with an item of that kind, and by nothing else. Into a chest or a hub the belt at
  \<open>(x, y)\<close> is one of them, and its slot ends empty, or filled by the item of a belt scanned
  later that feeds \<open>(x, y)\<close>. Into a furnace the item is taken exactly when it is ore, the
  buffer holds no ore as the loop starts, and no belt scanned earlier feeds ore to the same
  furnace: then the furnace tile ends with the item added to its buffer and progress 0, and
  the slot ends as for a chest; otherwise the item ends where it was. Into a mine the item
  ends where it was and the mine's tile is unchanged.
\<close>

theorem belt_delivery:
  assumes "validWorld s"
    and "layoutAt s x y = Some (Some (Belt, d))" and "itemAt s x y = Some (Some item)"
    and "stepInDir x y d = (nx, ny)" and "inBounds s nx ny"
    and "tileAt s nx ny = Some dt" and "building dt = Some db" and "btype db \<noteq> Belt"
  shows "(\<forall>m. cell m x y = Some (Some item) \<longrightarrow>
            (\<exists>s2 m2. beltStep x y (s, m) = Some (s2, m2)
               \<and> (btype db = Chest \<or> btype db = Hub \<longrightarrow>
                    s2 = s\<lparr>inventory := add_count (inventory s) item 1\<rparr>
                    \<and> m2 = setCell m x y None \<and> cell m2 x y = Some None)
               \<and> (btype db = Furnace \<longrightarrow>
                    (if (item = IronOre \<or> item = CopperOre)
                        \<and> count_of (buffer db) IronOre = 0 \<and> count_of (buffer db) CopperOre = 0
                     then s2 = setTile s nx ny
                            (dt\<lparr>building := Some (db\<lparr>buffer := add_count (buffer db) item 1, progress := 0\<rparr>)\<rparr>)
                          \<and> m2 = setCell m x y None \<and> cell m2 x y = Some None
                     else s2 = s \<and> m2 = m))
               \<and> (btype db = Mine \<longrightarrow> s2 = s \<and> m2 = m)))
     \<and> (\<exists>s' m'. beltPhase s = Some (s', m')
          \<and> (\<forall>w. productionPhase (w\<lparr>tick := tick w + 1\<rparr>) = Some s \<longrightarrow> stepGame w = Some (s'\<lparr>items := m'\<rparr>))
          \<and> (\<forall>k. count_of (inventory s') k = count_of (inventory s) k + credited s k)
          \<and> (btype db = Chest \<or> btype db = Hub \<longrightarrow>
               credits s (x, y) item \<and> count_of (inventory s) item + 1 \<le> count_of (inventory s') item
               \<and> (cell m' x y = Some None
                    \<or> (\<exists>q i. feeds s q (x, y) i \<and> before (x, y) q \<and> cell m' x y = Some (Some i))))
          \<and> (btype db = Furnace \<longrightarrow>
               (if (item = IronOre \<or> item = CopperOre)
                   \<and> count_of (buffer db) IronOre = 0 \<and> count_of (buffer db) CopperOre = 0
                   \<and> \<not> (\<exists>q i. feeds s q (nx, ny) i \<and> (i = IronOre \<or> i = CopperOre) \<and> before q (x, y))
                then tileAt s' nx ny
                       = Some (dt\<lparr>building := Some (db\<lparr>buffer := add_count (buffer db) item 1, progress := 0\<rparr>)\<rparr>)
                     \<and> (cell m' x y = Some None
                          \<or> (\<exists>q i. feeds s q (x, y) i \<and> before (x, y) q \<and> cell m' x y = Some (Some i)))
                else cell m' x y = Some (Some item)))
          \<and> (btype db = Mine \<longrightarrow> cell m' x y = Some (Some item) \<and> tileAt s' nx ny = Some dt))"
proof (rule conjI)
  show "\<forall>m. cell m x y = Some (Some item) \<longrightarrow>
            (\<exists>s2 m2. beltStep x y (s, m) = Some (s2, m2)
               \<and> (btype db = Chest \<or> btype db = Hub \<longrightarrow>
                    s2 = s\<lparr>inventory := add_count (inventory s) item 1\<rparr>
                    \<and> m2 = setCell m x y None \<and> cell m2 x y = Some None)
               \<and> (btype db = Furnace \<longrightarrow>
                    (if (item = IronOre \<or> item = CopperOre)
                        \<and> count_of (buffer db) IronOre = 0 \<and> count_of (buffer db) CopperOre = 0
                     then s2 = setTile s nx ny
                            (dt\<lparr>building := Some (db\<lparr>buffer := add_count (buffer db) item 1, progress := 0\<rparr>)\<rparr>)
                          \<and> m2 = setCell m x y None \<and> cell m2 x y = Some None
                     else s2 = s \<and> m2 = m))
               \<and> (btype db = Mine \<longrightarrow> s2 = s \<and> m2 = m))"
  proof (intro allI impI)
    fix m :: "ItemType option grid"
    assume c: "cell m x y = Some (Some item)"
    have b: "beltStep x y (s, m) = Some (deliver s m x y item nx ny dt db)"
      by (rule beltStep_deliver [OF assms(2-8)])
    have e: "cell (setCell m x y None) x y = Some None"
      using c by (simp add: cell_setCell)
    show "\<exists>s2 m2. beltStep x y (s, m) = Some (s2, m2)
               \<and> (btype db = Chest \<or> btype db = Hub \<longrightarrow>
                    s2 = s\<lparr>inventory := add_count (inventory s) item 1\<rparr>
                    \<and> m2 = setCell m x y None \<and> cell m2 x y = Some None)
               \<and> (btype db = Furnace \<longrightarrow>
                    (if (item = IronOre \<or> item = CopperOre)
                        \<and> count_of (buffer db) IronOre = 0 \<and> count_of (buffer db) CopperOre = 0
                     then s2 = setTile s nx ny
                            (dt\<lparr>building := Some (db\<lparr>buffer := add_count (buffer db) item 1, progress := 0\<rparr>)\<rparr>)
                          \<and> m2 = setCell m x y None \<and> cell m2 x y = Some None
                     else s2 = s \<and> m2 = m))
               \<and> (btype db = Mine \<longrightarrow> s2 = s \<and> m2 = m)"
      unfolding b using e by (cases "btype db") (auto simp: deliver_def)
  qed
next
  note v = assms(1) and A = assms(2-5) and D = assms(6,7)
  let ?order = "scanOrder (width s) (height s)"
  let ?dt' = "dt\<lparr>building := Some (db\<lparr>buffer := add_count (buffer db) item 1, progress := 0\<rparr>)\<rparr>"
  let ?T = "\<lambda>m. cell m x y = Some None
           \<or> (\<exists>q i. feeds s q (x, y) i \<and> before (x, y) q \<and> cell m x y = Some (Some i))"
  let ?C = "(item = IronOre \<or> item = CopperOre)
                   \<and> count_of (buffer db) IronOre = 0 \<and> count_of (buffer db) CopperOre = 0
                   \<and> \<not> (\<exists>q i. feeds s q (nx, ny) i \<and> (i = IronOre \<or> i = CopperOre) \<and> before q (x, y))"
  from beltPhase_credited [OF v] obtain s' m' where r: "beltPhase s = Some (s', m')"
      and inv: "\<forall>k. count_of (inventory s') k = count_of (inventory s) k + credited s k"
    by blast
  have link: "\<forall>w. productionPhase (w\<lparr>tick := tick w + 1\<rparr>) = Some s \<longrightarrow> stepGame w = Some (s'\<lparr>items := m'\<rparr>)"
    using r by (auto intro: stepGame_split)
  have inA: "(x, y) \<in> set ?order"
    using layoutAt_inBounds [OF v A(1)] by (simp add: set_scanOrder inBounds_def)
  have hub: "credits s (x, y) item \<and> count_of (inventory s) item + 1 \<le> count_of (inventory s') item \<and> ?T m'"
    if h: "btype db = Chest \<or> btype db = Hub"
  proof -
    have l: "layoutAt s nx ny = Some (Some (btype db, dir db))" using D by (rule layoutAt_tile)
    have c: "credits s (x, y) item" unfolding credits_iff using A l h by blast
    with inA have "(x, y) \<in> set (filter (\<lambda>p. credits s p item) ?order)" by simp
    then have "0 < length (filter (\<lambda>p. credits s p item) ?order)" by (rule length_pos_if_in_set)
    then have "1 \<le> credited s item" unfolding credited_def by linarith
    with inv have n: "count_of (inventory s) item + 1 \<le> count_of (inventory s') item" by simp
    from beltPhase_taken [OF v A D h] r have "?T m'" by simp
    with c n show ?thesis by blast
  qed
  have furnace: "if ?C then tileAt s' nx ny = Some ?dt' \<and> ?T m' else cell m' x y = Some (Some item)"
    if h: "btype db = Furnace"
  proof (cases ?C)
    case True
    then have ore: "item = IronOre \<or> item = CopperOre"
      and free: "count_of (buffer db) IronOre = 0" "count_of (buffer db) CopperOre = 0"
      and first: "\<not> (\<exists>q i. feeds s q (nx, ny) i \<and> (i = IronOre \<or> i = CopperOre) \<and> before q (x, y))"
      by blast+
    from beltPhase_furnace_accept [OF v A D h ore free first] r
    have "tileAt s' nx ny = Some ?dt' \<and> ?T m'" by simp
    then show ?thesis unfolding if_P [OF True] .
  next
    case False
    then have rej: "\<not> (item = IronOre \<or> item = CopperOre)
        \<or> count_of (buffer db) IronOre \<noteq> 0 \<or> count_of (buffer db) CopperOre \<noteq> 0
        \<or> (\<exists>q i. feeds s q (nx, ny) i \<and> (i = IronOre \<or> i = CopperOre) \<and> before q (x, y))"
      by blast
    from beltPhase_furnace_reject [OF v A D h rej] r
    have "cell m' x y = Some (Some item)" by simp
    then show ?thesis unfolding if_not_P [OF False] .
  qed
  have mine: "cell m' x y = Some (Some item) \<and> tileAt s' nx ny = Some dt" if h: "btype db = Mine"
    using beltPhase_mine [OF v A D h] r by simp
  show "\<exists>s' m'. beltPhase s = Some (s', m')
          \<and> (\<forall>w. productionPhase (w\<lparr>tick := tick w + 1\<rparr>) = Some s \<longrightarrow> stepGame w = Some (s'\<lparr>items := m'\<rparr>))
          \<and> (\<forall>k. count_of (inventory s') k = count_of (inventory s) k + credited s k)
          \<and> (btype db = Chest \<or> btype db = Hub \<longrightarrow>
               credits s (x, y) item \<and> count_of (inventory s) item + 1 \<le> count_of (inventory s') item
               \<and> ?T m')
          \<and> (btype db = Furnace \<longrightarrow>
               (if ?C then tileAt s' nx ny = Some ?dt' \<and> ?T m' else cell m' x y = Some (Some item)))
          \<and> (btype db = Mine \<longrightarrow> cell m' x y = Some (Some item) \<and> tileAt s' nx ny = Some dt)"
    using r link inv hub furnace mine by blast
qed

theorem belt_delivery_witness:
  "validWorld hubBeltWorld
   \<and> productionPhase (hubWorld\<lparr>tick := tick hubWorld + 1\<rparr>) = Some hubBeltWorld
   \<and> layoutAt hubBeltWorld 0 0 = Some (Some (Belt, Right))
   \<and> itemAt hubBeltWorld 0 0 = Some (Some IronPlate)
   \<and> stepInDir 0 0 Right = (1, 0) \<and> inBounds hubBeltWorld 1 0
   \<and> tileAt hubBeltWorld 1 0 = Some \<lparr>terrain = Empty, resource = 0, building = Some (newBuilding Hub Up)\<rparr>
   \<and> credited hubBeltWorld IronPlate = 1
   \<and> (\<exists>w'. stepGame hubWorld = Some w' \<and> count_of (inventory w') IronPlate = 1
        \<and> itemAt w' 0 0 = Some None)
   \<and> validWorld smelterBeltWorld
   \<and> productionPhase (smelterWorld\<lparr>tick := tick smelterWorld + 1\<rparr>) = Some smelterBeltWorld
   \<and> layoutAt smelterBeltWorld 1 0 = Some (Some (Belt, Left))
   \<and> itemAt smelterBeltWorld 1 0 = Some (Some IronOre)
   \<and> stepInDir 1 0 Left = (0, 0) \<and> inBounds smelterBeltWorld 0 0
   \<and> tileAt smelterBeltWorld 0 0
       = Some \<lparr>terrain = Empty, resource = 0, building = Some (newBuilding Furnace Left)\<rparr>
   \<and> (\<exists>w'. stepGame smelterWorld = Some w'
        \<and> tileAt w' 0 0 = Some \<lparr>terrain = Empty, resource = 0,
              building = Some \<lparr>btype = Furnace, dir = Left, progress = 0,
                               buffer = createBuffer\<lparr>iron_ore := 1\<rparr>\<rparr>\<rparr>
        \<and> itemAt w' 1 0 = Some None)"
proof -
  let ?h = hubBeltWorld and ?hub = "newBuilding Hub Up"
  let ?ht = "\<lparr>terrain = Empty, resource = 0, building = Some ?hub\<rparr>"
  have v: "validWorld ?h"
    by (simp add: validWorld_def gridShape_def hubBeltWorld_def)
  have p: "productionPhase (hubWorld\<lparr>tick := tick hubWorld + 1\<rparr>) = Some ?h"
    by code_simp
  have a: "layoutAt ?h 0 0 = Some (Some (Belt, Right))" "itemAt ?h 0 0 = Some (Some IronPlate)"
      "stepInDir 0 0 Right = (1, 0)" "inBounds ?h 1 0" "tileAt ?h 1 0 = Some ?ht"
      "building ?ht = Some ?hub" "btype ?hub \<noteq> Belt"
    by (simp_all add: hubBeltWorld_def layoutAt_def tileAt_def itemAt_def cell_def inBounds_def
        newBuilding_def)
  have k: "btype ?hub = Chest \<or> btype ?hub = Hub" by (simp add: newBuilding_def)
  have c: "credited ?h IronPlate = 1" by code_simp
  have i0: "count_of (inventory ?h) IronPlate = 0" by (simp add: hubBeltWorld_def createBuffer_def)
  have so: "scanOrder (width ?h) (height ?h) = [(0, 0), (1, 0), (2, 0)]" by code_simp
  have nofeed: "\<not> feeds ?h q (0, 0) i" for q i
  proof
    assume f: "feeds ?h q (0, 0) i"
    from feeds_scanOrder [OF v f] have "q = (0, 0) \<or> q = (1, 0) \<or> q = (2, 0)" unfolding so by simp
    with f show False
      by (auto simp: feeds_iff layoutAt_def tileAt_def cell_def hubBeltWorld_def newBuilding_def emptyTile_def)
  qed
  from belt_delivery [OF v a, THEN conjunct2] obtain s' m' where
    l: "\<forall>w. productionPhase (w\<lparr>tick := tick w + 1\<rparr>) = Some ?h \<longrightarrow> stepGame w = Some (s'\<lparr>items := m'\<rparr>)"
    and inv: "\<forall>k. count_of (inventory s') k = count_of (inventory ?h) k + credited ?h k"
    and hb: "btype ?hub = Chest \<or> btype ?hub = Hub \<longrightarrow>
               credits ?h (0, 0) IronPlate
               \<and> count_of (inventory ?h) IronPlate + 1 \<le> count_of (inventory s') IronPlate
               \<and> (cell m' 0 0 = Some None
                    \<or> (\<exists>q i. feeds ?h q (0, 0) i \<and> before (0, 0) q \<and> cell m' 0 0 = Some (Some i)))"
    by (elim exE conjE) (rule that)
  from hb k nofeed have e: "cell m' 0 0 = Some None" by blast
  from inv [THEN spec [of _ IronPlate]] c i0 have n: "count_of (inventory s') IronPlate = 1" by simp
  from l [THEN spec [of _ hubWorld]] p have "stepGame hubWorld = Some (s'\<lparr>items := m'\<rparr>)" by simp
  with e n have 1: "\<exists>w'. stepGame hubWorld = Some w' \<and> count_of (inventory w') IronPlate = 1
        \<and> itemAt w' 0 0 = Some None"
    by (simp add: itemAt_def)
  let ?f = smelterBeltWorld and ?fb = "newBuilding Furnace Left"
  let ?ft = "\<lparr>terrain = Empty, resource = 0, building = Some ?fb\<rparr>"
  have vf: "validWorld ?f"
    by (simp add: validWorld_def gridShape_def smelterBeltWorld_def)
  have pf: "productionPhase (smelterWorld\<lparr>tick := tick smelterWorld + 1\<rparr>) = Some ?f"
    by code_simp
  have af: "layoutAt ?f 1 0 = Some (Some (Belt, Left))" "itemAt ?f 1 0 = Some (Some IronOre)"
      "stepInDir 1 0 Left = (0, 0)" "inBounds ?f 0 0" "tileAt ?f 0 0 = Some ?ft"
      "building ?ft = Some ?fb" "btype ?fb \<noteq> Belt"
    by (simp_all add: smelterBeltWorld_def layoutAt_def tileAt_def itemAt_def cell_def inBounds_def
        newBuilding_def)
  have kf: "btype ?fb = Furnace" by (simp add: newBuilding_def)
  have sof: "scanOrder (width ?f) (height ?f) = [(0, 0), (1, 0), (2, 0)]" by code_simp
  have feedf: "q = (1, 0) \<and> p = (0, 0)" if f: "feeds ?f q p i" for q p i
  proof -
    from feeds_scanOrder [OF vf f] have "q = (0, 0) \<or> q = (1, 0) \<or> q = (2, 0)" unfolding sof by simp
    with f show ?thesis
      by (auto simp: feeds_iff layoutAt_def tileAt_def cell_def smelterBeltWorld_def newBuilding_def)
  qed
  have nofeedf: "\<not> feeds ?f q (1, 0) i" for q i
    using feedf [of q "(1, 0)" i] by auto
  have first: "\<not> (\<exists>q i. feeds ?f q (0, 0) i \<and> (i = IronOre \<or> i = CopperOre) \<and> before q (1, 0))"
  proof
    assume "\<exists>q i. feeds ?f q (0, 0) i \<and> (i = IronOre \<or> i = CopperOre) \<and> before q (1, 0)"
    then obtain q i where "feeds ?f q (0, 0) i" "before q (1, 0)" by blast
    with feedf [of q "(0, 0)" i] show False by simp
  qed
  have cond: "(IronOre = IronOre \<or> IronOre = CopperOre)
      \<and> count_of (buffer ?fb) IronOre = 0 \<and> count_of (buffer ?fb) CopperOre = 0
      \<and> \<not> (\<exists>q i. feeds ?f q (0, 0) i \<and> (i = IronOre \<or> i = CopperOre) \<and> before q (1, 0))"
    using first by (simp add: newBuilding_def createBuffer_def)
  have ef: "?ft\<lparr>building := Some (?fb\<lparr>buffer := add_count (buffer ?fb) IronOre 1, progress := 0\<rparr>)\<rparr>
      = \<lparr>terrain = Empty, resource = 0,
              building = Some \<lparr>btype = Furnace, dir = Left, progress = 0,
                               buffer = createBuffer\<lparr>iron_ore := 1\<rparr>\<rparr>\<rparr>"
    by (simp add: newBuilding_def createBuffer_def)
  from belt_delivery [OF vf af, THEN conjunct2] obtain s'' m'' where
    lf: "\<forall>w. productionPhase (w\<lparr>tick := tick w + 1\<rparr>) = Some ?f \<longrightarrow> stepGame w = Some (s''\<lparr>items := m''\<rparr>)"
    and fu: "btype ?fb = Furnace \<longrightarrow>
               (if (IronOre = IronOre \<or> IronOre = CopperOre)
                   \<and> count_of (buffer ?fb) IronOre = 0 \<and> count_of (buffer ?fb) CopperOre = 0
                   \<and> \<not> (\<exists>q i. feeds ?f q (0, 0) i \<and> (i = IronOre \<or> i = CopperOre) \<and> before q (1, 0))
                then tileAt s'' 0 0
                       = Some (?ft\<lparr>building := Some (?fb\<lparr>buffer := add_count (buffer ?fb) IronOre 1, progress := 0\<rparr>)\<rparr>)
                     \<and> (cell m'' 1 0 = Some None
                          \<or> (\<exists>q i. feeds ?f q (1, 0) i \<and> before (1, 0) q \<and> cell m'' 1 0 = Some (Some i)))
                else cell m'' 1 0 = Some (Some IronOre))"
    by (elim exE conjE) (rule that)
  from fu kf have "tileAt s'' 0 0
                       = Some (?ft\<lparr>building := Some (?fb\<lparr>buffer := add_count (buffer ?fb) IronOre 1, progress := 0\<rparr>)\<rparr>)
                     \<and> (cell m'' 1 0 = Some None
                          \<or> (\<exists>q i. feeds ?f q (1, 0) i \<and> before (1, 0) q \<and> cell m'' 1 0 = Some (Some i)))"
    unfolding if_P [OF cond] by (rule mp)
  with nofeedf have tf: "tileAt s'' 0 0 = Some \<lparr>terrain = Empty, resource = 0,
              building = Some \<lparr>btype = Furnace, dir = Left, progress = 0,
                               buffer = createBuffer\<lparr>iron_ore := 1\<rparr>\<rparr>\<rparr>"
    and cf: "cell m'' 1 0 = Some None"
    unfolding ef by blast+
  from lf [THEN spec [of _ smelterWorld]] pf have "stepGame smelterWorld = Some (s''\<lparr>items := m''\<rparr>)"
    by simp
  with tf cf have 2: "\<exists>w'. stepGame smelterWorld = Some w'
        \<and> tileAt w' 0 0 = Some \<lparr>terrain = Empty, resource = 0,
              building = Some \<lparr>btype = Furnace, dir = Left, progress = 0,
                               buffer = createBuffer\<lparr>iron_ore := 1\<rparr>\<rparr>\<rparr>
        \<and> itemAt w' 1 0 = Some None"
    by (simp add: itemAt_def)
  from v p a(1-5) c 1 vf pf af(1-5) 2 show ?thesis by simp
qed

subsection \<open>Mines over a whole tick\<close>

lemma outputsTo_iff:
  "outputsTo s (x, y) q \<longleftrightarrow>
     (\<exists>k d. layoutAt s x y = Some (Some (k, d))
        \<and> (k = Mine \<or> k = Furnace \<or> k = Assembler \<or> k = WireMill) \<and> stepInDir x y d = q)"
  by (auto simp: outputsTo_def split: option.splits)

lemma pullsFrom_iff:
  "pullsFrom s (x, y) q \<longleftrightarrow>
     (\<exists>k d d'. layoutAt s x y = Some (Some (k, d)) \<and> (k = Hub \<or> k = Furnace) \<and> stepInDir x y d' = q)"
proof -
  have "q \<in> set (map (stepInDir x y) DIRECTIONS) \<longleftrightarrow> (\<exists>d'. stepInDir x y d' = q)"
  proof
    assume "q \<in> set (map (stepInDir x y) DIRECTIONS)"
    then show "\<exists>d'. stepInDir x y d' = q" by auto
  next
    assume "\<exists>d'. stepInDir x y d' = q"
    then obtain d' where "stepInDir x y d' = q" by blast
    then show "q \<in> set (map (stepInDir x y) DIRECTIONS)"
      by (cases d') (auto simp: DIRECTIONS_def)
  qed
  then show ?thesis by (auto simp: pullsFrom_def split: option.splits)
qed

lemma findNeighborWith_dir:
  "findNeighborWith P s x y ds = Some (Some (nx, ny)) \<Longrightarrow>
     \<exists>d item. stepInDir x y d = (nx, ny) \<and> itemAt s nx ny = Some (Some item) \<and> P item"
proof (induction ds)
  case Nil
  then show ?case by simp
next
  case (Cons d ds)
  then show ?case
    by (cases "stepInDir x y d") (auto split: if_splits option.splits Option.bind_splits)
qed

lemma stepMine_item_empty:
  "stepMine s x y t b = Some s' \<Longrightarrow> tileAt s x y = Some t \<Longrightarrow> building t = Some b \<Longrightarrow> btype b = Mine
     \<Longrightarrow> itemAt s px py = Some None
     \<Longrightarrow> itemAt s' px py = Some None \<or> stepInDir x y (dir b) = (px, py)"
  by (auto simp: stepMine_def Let_def split: if_splits prod.splits Option.bind_splits)

lemma stepFurnace_item_empty:
  "stepFurnace s x y t b = Some s' \<Longrightarrow> itemAt s px py = Some None
     \<Longrightarrow> itemAt s' px py = Some None \<or> stepInDir x y (dir b) = (px, py)"
  by (auto simp: stepFurnace_def Let_def split: if_splits prod.splits option.splits Option.bind_splits)

lemma stepAssembler_item_empty:
  "stepAssembler s x y t b = Some s' \<Longrightarrow> itemAt s px py = Some None
     \<Longrightarrow> itemAt s' px py = Some None \<or> stepInDir x y (dir b) = (px, py)"
  by (auto simp: stepAssembler_def Let_def split: if_splits prod.splits option.splits Option.bind_splits)

lemma stepWireMill_item_empty:
  "stepWireMill s x y t b = Some s' \<Longrightarrow> itemAt s px py = Some None
     \<Longrightarrow> itemAt s' px py = Some None \<or> stepInDir x y (dir b) = (px, py)"
  by (auto simp: stepWireMill_def Let_def split: if_splits prod.splits option.splits Option.bind_splits)

lemma stepHub_item_empty:
  "stepHub s x y = Some s' \<Longrightarrow> itemAt s px py = Some None \<Longrightarrow> itemAt s' px py = Some None"
  by (auto simp: stepHub_def Let_def split: if_splits prod.splits option.splits Option.bind_splits)

lemma stepTile_item_empty:
  assumes "stepTile x y s = Some s'" and "itemAt s px py = Some None"
  shows "itemAt s' px py = Some None \<or> outputsTo s (x, y) (px, py)"
proof (cases "tileAt s x y")
  case None
  with assms show ?thesis by (simp add: stepTile_def)
next
  case (Some t)
  note t = this
  show ?thesis
  proof (cases "building t")
    case None
    with t assms show ?thesis by (simp add: stepTile_def)
  next
    case (Some b)
    have l: "layoutAt s x y = Some (Some (btype b, dir b))" using t Some by (rule layoutAt_tile)
    show ?thesis
    proof (cases "btype b")
      case Mine
      with t Some assms have "stepMine s x y t b = Some s'" by (simp add: stepTile_def)
      from stepMine_item_empty [OF this t Some Mine assms(2)] l Mine show ?thesis
        by (auto simp: outputsTo_iff)
    next
      case Furnace
      with t Some assms have "stepFurnace s x y t b = Some s'" by (simp add: stepTile_def)
      from stepFurnace_item_empty [OF this assms(2)] l Furnace show ?thesis
        by (auto simp: outputsTo_iff)
    next
      case Assembler
      with t Some assms have "stepAssembler s x y t b = Some s'" by (simp add: stepTile_def)
      from stepAssembler_item_empty [OF this assms(2)] l Assembler show ?thesis
        by (auto simp: outputsTo_iff)
    next
      case WireMill
      with t Some assms have "stepWireMill s x y t b = Some s'" by (simp add: stepTile_def)
      from stepWireMill_item_empty [OF this assms(2)] l WireMill show ?thesis
        by (auto simp: outputsTo_iff)
    next
      case Hub
      with t Some assms have "stepHub s x y = Some s'" by (simp add: stepTile_def)
      from stepHub_item_empty [OF this assms(2)] show ?thesis by simp
    next
      case Belt
      with t Some assms show ?thesis by (simp add: stepTile_def)
    next
      case Chest
      with t Some assms show ?thesis by (simp add: stepTile_def)
    qed
  qed
qed

lemma stepMine_item_kept:
  "stepMine s x y t b = Some s' \<Longrightarrow> itemAt s px py = Some (Some i) \<Longrightarrow> itemAt s' px py = Some (Some i)"
  by (auto simp: stepMine_def Let_def dest!: canPlaceItem_True split: if_splits prod.splits Option.bind_splits)

lemma stepFurnace_item_kept:
  "stepFurnace s x y t b = Some s' \<Longrightarrow> itemAt s px py = Some (Some i)
     \<Longrightarrow> itemAt s' px py = Some (Some i) \<or> (\<exists>d. stepInDir x y d = (px, py))"
  by (auto simp: stepFurnace_def Let_def neighbor_defs dest!: canPlaceItem_True findNeighborWith_dir
      split: if_splits prod.splits option.splits Option.bind_splits)

lemma stepAssembler_item_kept:
  "stepAssembler s x y t b = Some s' \<Longrightarrow> itemAt s px py = Some (Some i) \<Longrightarrow> i \<noteq> IronPlate
     \<Longrightarrow> itemAt s' px py = Some (Some i)"
  by (auto simp: stepAssembler_def Let_def neighbor_defs dest!: canPlaceItem_True findNeighborWith_dir
      split: if_splits prod.splits option.splits Option.bind_splits)

lemma stepWireMill_item_kept:
  "stepWireMill s x y t b = Some s' \<Longrightarrow> itemAt s px py = Some (Some i) \<Longrightarrow> i \<noteq> CopperPlate
     \<Longrightarrow> itemAt s' px py = Some (Some i)"
  by (auto simp: stepWireMill_def Let_def neighbor_defs dest!: canPlaceItem_True findNeighborWith_dir
      split: if_splits prod.splits option.splits Option.bind_splits)

lemma stepHub_item_kept:
  "stepHub s x y = Some s' \<Longrightarrow> itemAt s px py = Some (Some i)
     \<Longrightarrow> itemAt s' px py = Some (Some i) \<or> (\<exists>d. stepInDir x y d = (px, py))"
  by (auto simp: stepHub_def Let_def neighbor_defs dest!: findNeighborWith_dir
      split: if_splits prod.splits option.splits Option.bind_splits)

lemma stepTile_item_kept:
  assumes "stepTile x y s = Some s'" and "itemAt s px py = Some (Some i)"
    and "i = IronOre \<or> i = CopperOre"
  shows "itemAt s' px py = Some (Some i) \<or> pullsFrom s (x, y) (px, py)"
proof (cases "tileAt s x y")
  case None
  with assms show ?thesis by (simp add: stepTile_def)
next
  case (Some t)
  note t = this
  show ?thesis
  proof (cases "building t")
    case None
    with t assms show ?thesis by (simp add: stepTile_def)
  next
    case (Some b)
    have l: "layoutAt s x y = Some (Some (btype b, dir b))" using t Some by (rule layoutAt_tile)
    show ?thesis
    proof (cases "btype b")
      case Mine
      with t Some assms have "stepMine s x y t b = Some s'" by (simp add: stepTile_def)
      from stepMine_item_kept [OF this assms(2)] show ?thesis by simp
    next
      case Furnace
      with t Some assms have "stepFurnace s x y t b = Some s'" by (simp add: stepTile_def)
      from stepFurnace_item_kept [OF this assms(2)] l Furnace show ?thesis
        unfolding pullsFrom_iff by blast
    next
      case Assembler
      with t Some assms have "stepAssembler s x y t b = Some s'" by (simp add: stepTile_def)
      from stepAssembler_item_kept [OF this assms(2)] assms(3) show ?thesis by auto
    next
      case WireMill
      with t Some assms have "stepWireMill s x y t b = Some s'" by (simp add: stepTile_def)
      from stepWireMill_item_kept [OF this assms(2)] assms(3) show ?thesis by auto
    next
      case Hub
      with t Some assms have "stepHub s x y = Some s'" by (simp add: stepTile_def)
      from stepHub_item_kept [OF this assms(2)] l Hub show ?thesis
        unfolding pullsFrom_iff by blast
    next
      case Belt
      with t Some assms show ?thesis by (simp add: stepTile_def)
    next
      case Chest
      with t Some assms show ?thesis by (simp add: stepTile_def)
    qed
  qed
qed

lemma stepMine_mined:
  "stepMine s x y t b = Some s' \<Longrightarrow>
     ironMined (stats s) \<le> ironMined (stats s') \<and> copperMined (stats s) \<le> copperMined (stats s')"
  by (auto simp: stepMine_def Let_def split: if_splits prod.splits Option.bind_splits)

lemma stepFurnace_mined:
  "stepFurnace s x y t b = Some s' \<Longrightarrow>
     ironMined (stats s') = ironMined (stats s) \<and> copperMined (stats s') = copperMined (stats s)"
  by (auto simp: stepFurnace_def Let_def split: if_splits prod.splits option.splits Option.bind_splits)

lemma stepAssembler_mined:
  "stepAssembler s x y t b = Some s' \<Longrightarrow>
     ironMined (stats s') = ironMined (stats s) \<and> copperMined (stats s') = copperMined (stats s)"
  by (auto simp: stepAssembler_def Let_def split: if_splits prod.splits option.splits Option.bind_splits)

lemma stepWireMill_mined:
  "stepWireMill s x y t b = Some s' \<Longrightarrow>
     ironMined (stats s') = ironMined (stats s) \<and> copperMined (stats s') = copperMined (stats s)"
  by (auto simp: stepWireMill_def Let_def split: if_splits prod.splits option.splits Option.bind_splits)

lemma stepHub_mined: "stepHub s x y = Some s' \<Longrightarrow> stats s' = stats s"
  by (auto simp: stepHub_def Let_def split: if_splits prod.splits option.splits Option.bind_splits)

lemma stepTile_mined:
  assumes "stepTile x y s = Some s'"
  shows "ironMined (stats s) \<le> ironMined (stats s') \<and> copperMined (stats s) \<le> copperMined (stats s')"
  using assms stepMine_mined [of s x y _ _ s'] stepFurnace_mined [of s x y _ _ s']
    stepAssembler_mined [of s x y _ _ s'] stepWireMill_mined [of s x y _ _ s'] stepHub_mined [of s x y s']
  by (auto simp: stepTile_def split: option.splits BuildingType.splits Option.bind_splits)

lemma canPlaceItem_free:
  assumes "inBounds s x y"
    and "layoutAt s x y = Some None \<or> (\<exists>d. layoutAt s x y = Some (Some (Belt, d)))"
    and "itemAt s x y = Some None"
  shows "canPlaceItem s x y = Some True"
proof -
  from assms(2) obtain t where "tileAt s x y = Some t"
      "case building t of None \<Rightarrow> True | Some b \<Rightarrow> btype b = Belt"
    unfolding layoutAt_free by blast
  with assms(1,3) show ?thesis by (auto simp: canPlaceItem_def split: option.splits)
qed

lemma canPlaceItem_True_free:
  assumes "canPlaceItem s x y = Some True"
  shows "inBounds s x y
     \<and> (layoutAt s x y = Some None \<or> (\<exists>d. layoutAt s x y = Some (Some (Belt, d))))
     \<and> itemAt s x y = Some None"
proof -
  from assms have i: "inBounds s x y" "itemAt s x y = Some None" by (simp_all add: canPlaceItem_True)
  from assms i obtain t where t: "tileAt s x y = Some t"
      "case building t of None \<Rightarrow> True | Some b \<Rightarrow> btype b = Belt"
    by (auto simp: canPlaceItem_def split: if_splits option.splits Option.bind_splits)
  then have "layoutAt s x y = Some None \<or> (\<exists>d. layoutAt s x y = Some (Some (Belt, d)))"
    unfolding layoutAt_free by blast
  with i show ?thesis by simp
qed

lemma stepTile_mine_waits:
  assumes "tileAt s x y = Some t" "building t = Some b" "btype b = Mine"
    and "terrain t \<noteq> Empty" "resource t > 0" and "progress b + 1 < MINE_TICKS"
  shows "stepTile x y s = Some (setTile s x y (t\<lparr>building := Some (b\<lparr>progress := progress b + 1\<rparr>)\<rparr>))"
  using assms by (simp add: stepTile_mine stepMine_def Let_def)

lemma stepTile_mine_emits:
  assumes "tileAt s x y = Some t" "building t = Some b" "btype b = Mine"
    and "terrain t \<noteq> Empty" "resource t > 0" "stepInDir x y (dir b) = (nx, ny)"
    and "MINE_TICKS \<le> progress b + 1" "canPlaceItem s nx ny = Some True"
  shows "\<exists>s'. stepTile x y s = Some s'
       \<and> itemAt s' nx ny = Some (Some (if terrain t = Iron then IronOre else CopperOre))
       \<and> tileAt s' x y = Some \<lparr>terrain = (if resource t = 1 then Empty else terrain t),
                                resource = resource t - 1,
                                building = Some (b\<lparr>progress := 0\<rparr>)\<rparr>
       \<and> stats s' = (if terrain t = Iron
                      then (stats s)\<lparr>ironMined := ironMined (stats s) + 1\<rparr>
                      else (stats s)\<lparr>copperMined := copperMined (stats s) + 1\<rparr>)"
proof -
  have i: "itemAt s nx ny = Some None" using assms(8) by (simp add: canPlaceItem_True)
  have ne: "nx \<noteq> x \<or> ny \<noteq> y" using assms(6) by (rule stepInDir_moves)
  let ?s1 = "setTile s x y (t\<lparr>building := Some (b\<lparr>progress := progress b + 1\<rparr>)\<rparr>)"
  have c: "canPlaceItem ?s1 nx ny = Some True"
    using assms(8) ne by (simp add: canPlaceItem_setTile_other)
  show ?thesis
    using assms c i ne by (auto simp: stepTile_mine stepMine_def Let_def)
qed

lemma beltPhase_tile:
  assumes v: "validWorld s" and t: "tileAt s x y = Some t'"
    and k: "case building t' of None \<Rightarrow> True | Some b' \<Rightarrow> btype b' \<in> {Mine, Belt, Hub, Chest}"
  shows "\<exists>s' m'. beltPhase s = Some (s', m') \<and> tileAt s' x y = Some t' \<and> stats s' = stats s"
proof -
  let ?Q = "\<lambda>pre p. tileAt (fst p) x y = Some t' \<and> stats (fst p) = stats s"
  have "\<exists>s' m'. beltPhase s = Some (s', m') \<and> validWorld s' \<and> sameFrame s s' \<and> items s' = items s
        \<and> gridShape m' (width s) (height s) \<and> ?Q (scanOrder (width s) (height s)) (s', m')"
  proof (rule beltPhase_invariant [OF v])
    show "?Q [] (s, items s)" using t by simp
  next
    fix pre cx cy s1 m1 s2 m2
    assume q: "?Q pre (s1, m1)" and st: "beltStep cx cy (s1, m1) = Some (s2, m2)"
    from q have t1: "tileAt s1 x y = Some t'" by simp
    from beltStep_tile [OF st t1 k] beltStep_stats [OF st] q
    show "?Q (pre @ [(cx, cy)]) (s2, m2)" by simp
  qed
  then show ?thesis by auto
qed

lemma beltPhase_rest:
  assumes v: "validWorld s" and l: "layoutAt s px py = Some None" and i: "itemAt s px py = Some (Some k)"
  shows "\<exists>s' m'. beltPhase s = Some (s', m') \<and> cell m' px py = Some (Some k)"
proof -
  let ?Q = "\<lambda>pre p. (\<forall>x y. layoutAt (fst p) x y = layoutAt s x y) \<and> cell (snd p) px py = Some (Some k)"
  have "\<exists>s' m'. beltPhase s = Some (s', m') \<and> validWorld s' \<and> sameFrame s s' \<and> items s' = items s
        \<and> gridShape m' (width s) (height s) \<and> ?Q (scanOrder (width s) (height s)) (s', m')"
  proof (rule beltPhase_invariant [OF v])
    show "?Q [] (s, items s)" using i by (simp add: itemAt_def)
  next
    fix pre cx cy s1 m1 s2 m2
    assume q: "?Q pre (s1, m1)" and st: "beltStep cx cy (s1, m1) = Some (s2, m2)"
    have keep: "\<forall>x y. layoutAt s2 x y = layoutAt s x y"
      using beltStep_layout [OF st] q by simp
    from q have c: "cell m1 px py = Some (Some k)" by simp
    have "cell m2 px py = Some (Some k)"
    proof (cases "cx = px \<and> cy = py")
      case True
      from q l have "layoutAt s1 px py = Some None" by simp
      then obtain t where "tileAt s1 px py = Some t" "building t = None"
        by (auto simp: layoutAt_def)
      with st True have "m2 = m1" by (auto simp: beltStep_def split: option.splits Option.bind_splits)
      with c show ?thesis by simp
    next
      case False
      then have "px \<noteq> cx \<or> py \<noteq> cy" by auto
      from beltStep_into [OF st this] c show ?thesis by auto
    qed
    with keep show "?Q (pre @ [(cx, cy)]) (s2, m2)" by simp
  qed
  then show ?thesis by auto
qed

lemma stepGame_mine_waits:
  assumes v: "validWorld s" and T: "tileAt s x y = Some t" "building t = Some b" "btype b = Mine"
    and W: "terrain t \<noteq> Empty" "resource t > 0" and p: "progress b + 1 < MINE_TICKS"
  shows "\<exists>s'. stepGame s = Some s'
      \<and> tileAt s' x y = Some (t\<lparr>building := Some (b\<lparr>progress := progress b + 1\<rparr>)\<rparr>)"
proof -
  let ?t' = "t\<lparr>building := Some (b\<lparr>progress := progress b + 1\<rparr>)\<rparr>"
  let ?n = "s\<lparr>tick := tick s + 1\<rparr>"
  have vn: "validWorld ?n" using v by simp
  have ib: "inBounds s x y" using valid_tileAt [OF v, of x y] T(1) by simp
  let ?Q = "\<lambda>pre s1. tileAt s1 x y = Some (if (x, y) \<in> set pre then ?t' else t)"
  have "\<exists>s'. productionPhase ?n = Some s' \<and> validWorld s' \<and> sameFrame ?n s'
        \<and> ?Q (scanOrder (width ?n) (height ?n)) s'"
  proof (rule productionPhase_invariant [OF vn, where Q = ?Q])
    show "?Q [] ?n" using T(1) by simp
  next
    fix pre cx cy post s1 s2
    assume sp: "scanOrder (width ?n) (height ?n) = pre @ (cx, cy) # post"
      and q: "?Q pre s1" and st: "stepTile cx cy s1 = Some s2"
    show "?Q (pre @ [(cx, cy)]) s2"
    proof (cases "cx = x \<and> cy = y")
      case True
      then have np: "(x, y) \<notin> set pre" using scanOrder_split(1) [OF sp] by simp
      with q have t1: "tileAt s1 x y = Some t" by simp
      from stepTile_mine_waits [OF t1 T(2,3) W p] st True have "s2 = setTile s1 x y ?t'" by simp
      with t1 True show ?thesis by simp
    next
      case False
      then have "tileAt s2 x y = tileAt s1 x y" using stepTile_other [OF st, of x y] by auto
      with q False show ?thesis by auto
    qed
  qed
  moreover have "(x, y) \<in> set (scanOrder (width ?n) (height ?n))"
    using ib by (simp add: set_scanOrder inBounds_def)
  ultimately obtain n1 where n1: "productionPhase ?n = Some n1" "validWorld n1" "tileAt n1 x y = Some ?t'"
    by auto
  have "case building ?t' of None \<Rightarrow> True | Some b' \<Rightarrow> btype b' \<in> {Mine, Belt, Hub, Chest}"
    using T(3) by simp
  from beltPhase_tile [OF n1(2,3) this] obtain n2 m where
    n2: "beltPhase n1 = Some (n2, m)" "tileAt n2 x y = Some ?t'"
    by blast
  from stepGame_split [OF n1(1) n2(1)] n2(2) show ?thesis by simp
qed

lemma stepGame_mine_emits:
  assumes v: "validWorld s" and T: "tileAt s x y = Some t" "building t = Some b" "btype b = Mine"
    and W: "terrain t \<noteq> Empty" "resource t > 0" and d: "stepInDir x y (dir b) = (nx, ny)"
    and p: "MINE_TICKS \<le> progress b + 1" and c: "canPlaceItem s nx ny = Some True"
    and first: "\<not> (\<exists>q. before q (x, y) \<and> outputsTo s q (nx, ny))"
  shows "\<exists>s'. stepGame s = Some s'
      \<and> tileAt s' x y = Some \<lparr>terrain = (if resource t = 1 then Empty else terrain t),
                               resource = resource t - 1,
                               building = Some (b\<lparr>progress := 0\<rparr>)\<rparr>
      \<and> (if terrain t = Iron then ironMined (stats s) + 1 \<le> ironMined (stats s')
          else copperMined (stats s) + 1 \<le> copperMined (stats s'))
      \<and> (layoutAt s nx ny = Some None \<and> \<not> (\<exists>q. pullsFrom s q (nx, ny)) \<longrightarrow>
           itemAt s' nx ny = Some (Some (if terrain t = Iron then IronOre else CopperOre)))"
proof -
  let ?t2 = "\<lparr>terrain = (if resource t = 1 then Empty else terrain t), resource = resource t - 1,
              building = Some (b\<lparr>progress := 0\<rparr>)\<rparr>"
  let ?ore = "if terrain t = Iron then IronOre else CopperOre"
  let ?mined = "\<lambda>st. if terrain t = Iron then ironMined st else copperMined st"
  let ?keep = "layoutAt s nx ny = Some None \<and> \<not> (\<exists>q. pullsFrom s q (nx, ny))"
  let ?n = "s\<lparr>tick := tick s + 1\<rparr>"
  let ?order = "scanOrder (width ?n) (height ?n)"
  have vn: "validWorld ?n" using v by simp
  have ib: "inBounds s x y" using valid_tileAt [OF v, of x y] T(1) by simp
  have inA: "(x, y) \<in> set ?order" using ib by (simp add: set_scanOrder inBounds_def)
  from canPlaceItem_True_free [OF c] have F: "inBounds s nx ny"
      "layoutAt s nx ny = Some None \<or> (\<exists>d. layoutAt s nx ny = Some (Some (Belt, d)))"
      "itemAt s nx ny = Some None"
    by simp_all
  have isore: "?ore = IronOre \<or> ?ore = CopperOre" by simp
  let ?Q = "\<lambda>pre s1. (\<forall>x' y'. layoutAt s1 x' y' = layoutAt s x' y')
      \<and> tileAt s1 x y = Some (if (x, y) \<in> set pre then ?t2 else t)
      \<and> ((x, y) \<notin> set pre \<longrightarrow> itemAt s1 nx ny = Some None)
      \<and> ?mined (stats s) + (if (x, y) \<in> set pre then 1 else 0) \<le> ?mined (stats s1)
      \<and> (?keep \<and> (x, y) \<in> set pre \<longrightarrow> itemAt s1 nx ny = Some (Some ?ore))"
  have "\<exists>s'. productionPhase ?n = Some s' \<and> validWorld s' \<and> sameFrame ?n s' \<and> ?Q ?order s'"
  proof (rule productionPhase_invariant [OF vn, where Q = ?Q])
    show "?Q [] ?n" using T(1) F(3) by simp
  next
    fix pre cx cy post s1 s2
    assume sp: "?order = pre @ (cx, cy) # post"
      and v1: "validWorld s1" and f: "sameFrame ?n s1"
      and q: "?Q pre s1" and st: "stepTile cx cy s1 = Some s2"
    have l1: "layoutAt s1 x' y' = layoutAt s x' y'" for x' y' using q by simp
    have b1: "inBounds s1 = inBounds s" using f by (simp add: inBounds_def sameFrame_def fun_eq_iff)
    have l2: "\<forall>x' y'. layoutAt s2 x' y' = layoutAt s x' y'"
      using q stepTile_layout [OF st] by simp
    have m1: "?mined (stats s) + (if (x, y) \<in> set pre then 1 else 0) \<le> ?mined (stats s1)"
      using q by blast
    have rest: "tileAt s2 x y = Some (if (x, y) \<in> set (pre @ [(cx, cy)]) then ?t2 else t)
      \<and> ((x, y) \<notin> set (pre @ [(cx, cy)]) \<longrightarrow> itemAt s2 nx ny = Some None)
      \<and> ?mined (stats s) + (if (x, y) \<in> set (pre @ [(cx, cy)]) then 1 else 0) \<le> ?mined (stats s2)
      \<and> (?keep \<and> (x, y) \<in> set (pre @ [(cx, cy)]) \<longrightarrow> itemAt s2 nx ny = Some (Some ?ore))"
    proof (cases "cx = x \<and> cy = y")
      case True
      then have np: "(x, y) \<notin> set pre" using scanOrder_split(1) [OF sp] by simp
      with q have t1: "tileAt s1 x y = Some t" and i1: "itemAt s1 nx ny = Some None" by simp_all
      have c1: "canPlaceItem s1 nx ny = Some True"
        using F i1 by (intro canPlaceItem_free) (simp_all add: l1 b1)
      from stepTile_mine_emits [OF t1 T(2,3) W d p c1] st True
      have e: "itemAt s2 nx ny = Some (Some ?ore)" "tileAt s2 x y = Some ?t2"
          "stats s2 = (if terrain t = Iron
                      then (stats s1)\<lparr>ironMined := ironMined (stats s1) + 1\<rparr>
                      else (stats s1)\<lparr>copperMined := copperMined (stats s1) + 1\<rparr>)"
        by auto
      from e(3) m1 np have "?mined (stats s) + 1 \<le> ?mined (stats s2)" by (simp split: if_splits)
      with e(1,2) True show ?thesis by simp
    next
      case False
      then have ne: "(x, y) \<noteq> (cx, cy)" by auto
      have tile: "tileAt s2 x y = tileAt s1 x y" using False stepTile_other [OF st, of x y] by auto
      have mono: "?mined (stats s1) \<le> ?mined (stats s2)" using stepTile_mined [OF st] by simp
      have empty: "itemAt s2 nx ny = Some None" if np: "(x, y) \<notin> set pre"
      proof -
        from q np have i1: "itemAt s1 nx ny = Some None" by simp
        have "before (cx, cy) (x, y)" using scanOrder_later [OF sp inA np ne] .
        with first have "\<not> outputsTo s (cx, cy) (nx, ny)" by blast
        then have "\<not> outputsTo s1 (cx, cy) (nx, ny)" by (simp add: outputsTo_iff l1)
        with stepTile_item_empty [OF st i1] show ?thesis by simp
      qed
      have kept: "itemAt s2 nx ny = Some (Some ?ore)" if k: "?keep" and inpre: "(x, y) \<in> set pre"
      proof -
        from q k inpre have i1: "itemAt s1 nx ny = Some (Some ?ore)" by blast
        from k have "\<not> pullsFrom s (cx, cy) (nx, ny)" by blast
        then have "\<not> pullsFrom s1 (cx, cy) (nx, ny)" by (simp add: pullsFrom_iff l1)
        with stepTile_item_kept [OF st i1 isore] show ?thesis by simp
      qed
      from tile q have 1: "tileAt s2 x y = Some (if (x, y) \<in> set (pre @ [(cx, cy)]) then ?t2 else t)"
        using False by auto
      from empty have 2: "(x, y) \<notin> set (pre @ [(cx, cy)]) \<longrightarrow> itemAt s2 nx ny = Some None" by simp
      from m1 mono have 3: "?mined (stats s) + (if (x, y) \<in> set (pre @ [(cx, cy)]) then 1 else 0)
          \<le> ?mined (stats s2)"
        using False by auto
      from kept have 4: "?keep \<and> (x, y) \<in> set (pre @ [(cx, cy)]) \<longrightarrow> itemAt s2 nx ny = Some (Some ?ore)"
        using False by auto
      from 1 2 3 4 show ?thesis by blast
    qed
    with l2 show "?Q (pre @ [(cx, cy)]) s2" by blast
  qed
  then obtain n1 where n1: "productionPhase ?n = Some n1" "validWorld n1" and qn: "?Q ?order n1"
    by blast
  from qn inA have r: "\<forall>x' y'. layoutAt n1 x' y' = layoutAt s x' y'" "tileAt n1 x y = Some ?t2"
      "?mined (stats s) + 1 \<le> ?mined (stats n1)"
      "?keep \<longrightarrow> itemAt n1 nx ny = Some (Some ?ore)"
    by simp_all
  have "case building ?t2 of None \<Rightarrow> True | Some b' \<Rightarrow> btype b' \<in> {Mine, Belt, Hub, Chest}"
    using T(3) by simp
  from beltPhase_tile [OF n1(2) r(2) this] obtain n2 m where
    n2: "beltPhase n1 = Some (n2, m)" "tileAt n2 x y = Some ?t2" "stats n2 = stats n1"
    by blast
  have sg: "stepGame s = Some (n2\<lparr>items := m\<rparr>)" using n1(1) n2(1) by (rule stepGame_split)
  have item: "itemAt (n2\<lparr>items := m\<rparr>) nx ny = Some (Some ?ore)" if k: "?keep"
  proof -
    from k r(1) have "layoutAt n1 nx ny = Some None" by simp
    moreover from k r(4) have "itemAt n1 nx ny = Some (Some ?ore)" by blast
    ultimately have "\<exists>s' m'. beltPhase n1 = Some (s', m') \<and> cell m' nx ny = Some (Some ?ore)"
      by (rule beltPhase_rest [OF n1(2)])
    with n2(1) show ?thesis by (simp add: itemAt_def)
  qed
  have st: "if terrain t = Iron then ironMined (stats s) + 1 \<le> ironMined (stats (n2\<lparr>items := m\<rparr>))
          else copperMined (stats s) + 1 \<le> copperMined (stats (n2\<lparr>items := m\<rparr>))"
    using r(3) n2(3) by (simp split: if_splits)
  have tl: "tileAt (n2\<lparr>items := m\<rparr>) x y = Some ?t2" using n2(2) by simp
  from sg tl st item show ?thesis by blast
qed

lemma outputsTo_scanOrder:
  assumes "validWorld s" and "outputsTo s q p"
  shows "q \<in> set (scanOrder (width s) (height s))"
proof -
  obtain qx qy where q: "q = (qx, qy)" by (cases q)
  from assms(2) obtain k d where "layoutAt s qx qy = Some (Some (k, d))" unfolding q outputsTo_iff by blast
  from layoutAt_inBounds [OF assms(1) this] show ?thesis
    unfolding q by (simp add: set_scanOrder inBounds_def)
qed

lemma pullsFrom_scanOrder:
  assumes "validWorld s" and "pullsFrom s q p"
  shows "q \<in> set (scanOrder (width s) (height s))"
proof -
  obtain qx qy where q: "q = (qx, qy)" by (cases q)
  from assms(2) obtain k d where "layoutAt s qx qy = Some (Some (k, d))" unfolding q pullsFrom_iff by blast
  from layoutAt_inBounds [OF assms(1) this] show ?thesis
    unfolding q by (simp add: set_scanOrder inBounds_def)
qed

text \<open>
  Claim C3, amended. Take a mine at \<open>(x, y)\<close> on a tile whose terrain is not empty and whose
  resource is positive, and let \<open>(nx, ny)\<close> be the tile ahead of it. The tile step of the mine
  adds one to its progress; while the new progress is below 4 nothing else changes, and the
  whole tick leaves the mine's tile with progress one higher. The target accepts an item
  exactly when it is in bounds, holds no building other than a belt and holds no ground item.
  When the new progress is at least 4 and the target accepts as the production loop reaches
  the mine, the tile step puts one ore of the kind of the terrain on the target, resets the
  progress to 0, takes one from the resource (the terrain becomes empty when the resource
  reaches 0) and adds one to the matching mined counter. When the new progress is at least 4,
  the target accepts as the tick starts, and no mine, furnace, assembler or wire mill scanned
  before the mine faces the target, the whole tick leaves the mine's tile with progress 0 and
  the resource one lower (the terrain empty at 0), and the matching mined counter at least one
  higher; if moreover the target holds no building and is a neighbour of no hub and no furnace,
  the ore lies on the target when the tick ends. In the 3 by 3 world with a mine at (1,1)
  facing right on an iron tile with resource 1, four ticks leave iron ore on (2,1), resource 0
  and empty terrain at (1,1), and ironMined = 1.
\<close>

theorem mine_emission:
  assumes "validWorld s" and "tileAt s x y = Some t" and "building t = Some b" and "btype b = Mine"
    and "terrain t \<noteq> Empty" and "resource t > 0" and "stepInDir x y (dir b) = (nx, ny)"
  shows "(progress b + 1 < MINE_TICKS \<longrightarrow>
            stepTile x y s = Some (setTile s x y (t\<lparr>building := Some (b\<lparr>progress := progress b + 1\<rparr>)\<rparr>))
            \<and> (\<exists>s'. stepGame s = Some s'
                 \<and> tileAt s' x y = Some (t\<lparr>building := Some (b\<lparr>progress := progress b + 1\<rparr>)\<rparr>)))
     \<and> (canPlaceItem s nx ny = Some True \<longleftrightarrow>
            inBounds s nx ny
            \<and> (\<forall>dt db. tileAt s nx ny = Some dt \<longrightarrow> building dt = Some db \<longrightarrow> btype db = Belt)
            \<and> itemAt s nx ny = Some None)
     \<and> (progress b + 1 \<ge> MINE_TICKS \<and> canPlaceItem s nx ny = Some True \<longrightarrow>
            (\<exists>s'. stepTile x y s = Some s'
               \<and> itemAt s' nx ny = Some (Some (if terrain t = Iron then IronOre else CopperOre))
               \<and> tileAt s' x y = Some \<lparr>terrain = (if resource t = 1 then Empty else terrain t),
                                        resource = resource t - 1,
                                        building = Some (b\<lparr>progress := 0\<rparr>)\<rparr>
               \<and> stats s' = (if terrain t = Iron
                              then (stats s)\<lparr>ironMined := ironMined (stats s) + 1\<rparr>
                              else (stats s)\<lparr>copperMined := copperMined (stats s) + 1\<rparr>)))
     \<and> (progress b + 1 \<ge> MINE_TICKS \<and> canPlaceItem s nx ny = Some True
          \<and> \<not> (\<exists>q. before q (x, y) \<and> outputsTo s q (nx, ny)) \<longrightarrow>
            (\<exists>s'. stepGame s = Some s'
               \<and> tileAt s' x y = Some \<lparr>terrain = (if resource t = 1 then Empty else terrain t),
                                        resource = resource t - 1,
                                        building = Some (b\<lparr>progress := 0\<rparr>)\<rparr>
               \<and> (if terrain t = Iron then ironMined (stats s) + 1 \<le> ironMined (stats s')
                   else copperMined (stats s) + 1 \<le> copperMined (stats s'))
               \<and> (layoutAt s nx ny = Some None \<and> \<not> (\<exists>q. pullsFrom s q (nx, ny)) \<longrightarrow>
                    itemAt s' nx ny = Some (Some (if terrain t = Iron then IronOre else CopperOre)))))
     \<and> (\<exists>w'. steps 4 mineWorld = Some w'
            \<and> itemAt w' 2 1 = Some (Some IronOre)
            \<and> map_option resource (tileAt w' 1 1) = Some 0
            \<and> map_option terrain (tileAt w' 1 1) = Some Empty
            \<and> ironMined (stats w') = 1)"
proof (intro conjI impI)
  assume p: "progress b + 1 < MINE_TICKS"
  show "stepTile x y s = Some (setTile s x y (t\<lparr>building := Some (b\<lparr>progress := progress b + 1\<rparr>)\<rparr>))"
    using assms(2-6) p by (rule stepTile_mine_waits)
  show "\<exists>s'. stepGame s = Some s'
      \<and> tileAt s' x y = Some (t\<lparr>building := Some (b\<lparr>progress := progress b + 1\<rparr>)\<rparr>)"
    using assms(1-6) p by (rule stepGame_mine_waits)
next
  show "canPlaceItem s nx ny = Some True \<longleftrightarrow>
            inBounds s nx ny
            \<and> (\<forall>dt db. tileAt s nx ny = Some dt \<longrightarrow> building dt = Some db \<longrightarrow> btype db = Belt)
            \<and> itemAt s nx ny = Some None"
    by (rule canPlaceItem_iff [OF assms(1)])
next
  assume a: "progress b + 1 \<ge> MINE_TICKS \<and> canPlaceItem s nx ny = Some True"
  then have "MINE_TICKS \<le> progress b + 1" "canPlaceItem s nx ny = Some True" by simp_all
  with assms(2-7) show "\<exists>s'. stepTile x y s = Some s'
               \<and> itemAt s' nx ny = Some (Some (if terrain t = Iron then IronOre else CopperOre))
               \<and> tileAt s' x y = Some \<lparr>terrain = (if resource t = 1 then Empty else terrain t),
                                        resource = resource t - 1,
                                        building = Some (b\<lparr>progress := 0\<rparr>)\<rparr>
               \<and> stats s' = (if terrain t = Iron
                              then (stats s)\<lparr>ironMined := ironMined (stats s) + 1\<rparr>
                              else (stats s)\<lparr>copperMined := copperMined (stats s) + 1\<rparr>)"
    by (rule stepTile_mine_emits)
next
  assume a: "progress b + 1 \<ge> MINE_TICKS \<and> canPlaceItem s nx ny = Some True
          \<and> \<not> (\<exists>q. before q (x, y) \<and> outputsTo s q (nx, ny))"
  then have "MINE_TICKS \<le> progress b + 1" "canPlaceItem s nx ny = Some True"
      "\<not> (\<exists>q. before q (x, y) \<and> outputsTo s q (nx, ny))"
    by simp_all
  with assms show "\<exists>s'. stepGame s = Some s'
               \<and> tileAt s' x y = Some \<lparr>terrain = (if resource t = 1 then Empty else terrain t),
                                        resource = resource t - 1,
                                        building = Some (b\<lparr>progress := 0\<rparr>)\<rparr>
               \<and> (if terrain t = Iron then ironMined (stats s) + 1 \<le> ironMined (stats s')
                   else copperMined (stats s) + 1 \<le> copperMined (stats s'))
               \<and> (layoutAt s nx ny = Some None \<and> \<not> (\<exists>q. pullsFrom s q (nx, ny)) \<longrightarrow>
                    itemAt s' nx ny = Some (Some (if terrain t = Iron then IronOre else CopperOre)))"
    by (rule stepGame_mine_emits)
next
  have "steps 4 mineWorld = Some
     \<lparr>width = 3, height = 3, tick = 4,
      tiles = [[emptyTile, emptyTile, emptyTile],
               [emptyTile, \<lparr>terrain = Empty, resource = 0, building = Some (newBuilding Mine Right)\<rparr>, emptyTile],
               [emptyTile, emptyTile, emptyTile]],
      items = [[None, None, None], [None, None, Some IronOre], [None, None, None]],
      inventory = createBuffer,
      stats = zeroStats\<lparr>ironMined := 1\<rparr>\<rparr>"
    by code_simp
  then show "\<exists>w'. steps 4 mineWorld = Some w'
            \<and> itemAt w' 2 1 = Some (Some IronOre)
            \<and> map_option resource (tileAt w' 1 1) = Some 0
            \<and> map_option terrain (tileAt w' 1 1) = Some Empty
            \<and> ironMined (stats w') = 1"
    by (simp add: itemAt_def tileAt_def cell_def zeroStats_def)
qed

theorem mine_emission_witness:
  "validWorld mineWorld
   \<and> tileAt mineWorld 1 1 = Some \<lparr>terrain = Iron, resource = 1, building = Some (newBuilding Mine Right)\<rparr>
   \<and> stepInDir 1 1 (dir (newBuilding Mine Right)) = (2, 1)
   \<and> progress (newBuilding Mine Right) + 1 < MINE_TICKS
   \<and> stepTile 1 1 mineWorld = Some (setTile mineWorld 1 1
        \<lparr>terrain = Iron, resource = 1, building = Some ((newBuilding Mine Right)\<lparr>progress := 1\<rparr>)\<rparr>)
   \<and> (\<exists>s'. stepGame mineWorld = Some s'
        \<and> tileAt s' 1 1
            = Some \<lparr>terrain = Iron, resource = 1, building = Some ((newBuilding Mine Right)\<lparr>progress := 1\<rparr>)\<rparr>)
   \<and> validWorld readyMineWorld
   \<and> tileAt readyMineWorld 1 1
        = Some \<lparr>terrain = Iron, resource = 1, building = Some ((newBuilding Mine Right)\<lparr>progress := 3\<rparr>)\<rparr>
   \<and> canPlaceItem readyMineWorld 2 1 = Some True
   \<and> layoutAt readyMineWorld 2 1 = Some None
   \<and> (\<exists>s'. stepTile 1 1 readyMineWorld = Some s'
        \<and> itemAt s' 2 1 = Some (Some IronOre)
        \<and> tileAt s' 1 1 = Some \<lparr>terrain = Empty, resource = 0, building = Some (newBuilding Mine Right)\<rparr>
        \<and> ironMined (stats s') = 1)
   \<and> (\<exists>s'. stepGame readyMineWorld = Some s'
        \<and> itemAt s' 2 1 = Some (Some IronOre)
        \<and> tileAt s' 1 1 = Some \<lparr>terrain = Empty, resource = 0, building = Some (newBuilding Mine Right)\<rparr>
        \<and> 1 \<le> ironMined (stats s'))"
proof -
  let ?b = "newBuilding Mine Right"
  let ?t = "\<lparr>terrain = Iron, resource = 1, building = Some ?b\<rparr>"
  let ?b3 = "?b\<lparr>progress := 3\<rparr>"
  let ?t3 = "\<lparr>terrain = Iron, resource = 1, building = Some ?b3\<rparr>"
  let ?t2 = "\<lparr>terrain = (if resource ?t3 = 1 then Empty else terrain ?t3), resource = resource ?t3 - 1,
              building = Some (?b3\<lparr>progress := 0\<rparr>)\<rparr>"
  have v: "validWorld mineWorld"
    by (simp add: validWorld_def gridShape_def mineWorld_def)
  have t: "tileAt mineWorld 1 1 = Some ?t"
    by (simp add: mineWorld_def tileAt_def cell_def)
  have q: "building ?t = Some ?b" "btype ?b = Mine" "terrain ?t \<noteq> Empty" "resource ?t > 0"
      "stepInDir 1 1 (dir ?b) = (2, 1)"
    by (simp_all add: newBuilding_def)
  have d: "progress ?b + 1 < MINE_TICKS"
    by (simp add: newBuilding_def MINE_TICKS_def)
  have e1: "?t\<lparr>building := Some (?b\<lparr>progress := progress ?b + 1\<rparr>)\<rparr>
      = \<lparr>terrain = Iron, resource = 1, building = Some (?b\<lparr>progress := 1\<rparr>)\<rparr>"
    by (simp add: newBuilding_def)
  from mine_emission [OF v t q, THEN conjunct1, THEN mp, OF d]
  have 1: "stepTile 1 1 mineWorld = Some (setTile mineWorld 1 1
        \<lparr>terrain = Iron, resource = 1, building = Some (?b\<lparr>progress := 1\<rparr>)\<rparr>)"
    and 2: "\<exists>s'. stepGame mineWorld = Some s'
        \<and> tileAt s' 1 1 = Some \<lparr>terrain = Iron, resource = 1, building = Some (?b\<lparr>progress := 1\<rparr>)\<rparr>"
    unfolding e1 by blast+
  have v3: "validWorld readyMineWorld" using v by (simp add: readyMineWorld_def)
  have t3: "tileAt readyMineWorld 1 1 = Some ?t3"
    using t by (simp add: readyMineWorld_def)
  have q3: "building ?t3 = Some ?b3" "btype ?b3 = Mine" "terrain ?t3 \<noteq> Empty" "resource ?t3 > 0"
      "stepInDir 1 1 (dir ?b3) = (2, 1)"
    by (simp_all add: newBuilding_def)
  have d3: "progress ?b3 + 1 \<ge> MINE_TICKS"
    by (simp add: newBuilding_def MINE_TICKS_def)
  have c3: "canPlaceItem readyMineWorld 2 1 = Some True"
    by code_simp
  have l3: "layoutAt readyMineWorld 2 1 = Some None"
    by code_simp
  have z: "stats readyMineWorld = zeroStats"
    by (simp add: readyMineWorld_def mineWorld_def setTile_def)
  have o: "\<forall>q \<in> set (scanOrder (width readyMineWorld) (height readyMineWorld)).
      \<not> (before q (1, 1) \<and> outputsTo readyMineWorld q (2, 1)) \<and> \<not> pullsFrom readyMineWorld q (2, 1)"
    by code_simp
  have first: "\<not> (\<exists>q. before q (1, 1) \<and> outputsTo readyMineWorld q (2, 1))"
    using o outputsTo_scanOrder [OF v3] by blast
  have nopull: "\<not> (\<exists>q. pullsFrom readyMineWorld q (2, 1))"
    using o pullsFrom_scanOrder [OF v3] by blast
  have e2: "?t2 = \<lparr>terrain = Empty, resource = 0, building = Some ?b\<rparr>"
    by (simp add: newBuilding_def)
  note r = mine_emission [OF v3 t3 q3]
  from r [THEN conjunct2, THEN conjunct2, THEN conjunct1, THEN mp, OF conjI [OF d3 c3]]
  obtain s' where "stepTile 1 1 readyMineWorld = Some s'" "itemAt s' 2 1 = Some (Some IronOre)"
      "tileAt s' 1 1 = Some ?t2"
      "stats s' = (stats readyMineWorld)\<lparr>ironMined := ironMined (stats readyMineWorld) + 1\<rparr>"
    by auto
  then have 3: "\<exists>s'. stepTile 1 1 readyMineWorld = Some s'
        \<and> itemAt s' 2 1 = Some (Some IronOre)
        \<and> tileAt s' 1 1 = Some \<lparr>terrain = Empty, resource = 0, building = Some ?b\<rparr>
        \<and> ironMined (stats s') = 1"
    unfolding e2 z by (simp add: zeroStats_def)
  from r [THEN conjunct2, THEN conjunct2, THEN conjunct2, THEN conjunct1, THEN mp,
      OF conjI [OF d3 conjI [OF c3 first]]]
  obtain s'' where "stepGame readyMineWorld = Some s''" "tileAt s'' 1 1 = Some ?t2"
      "ironMined (stats readyMineWorld) + 1 \<le> ironMined (stats s'')"
      "layoutAt readyMineWorld 2 1 = Some None \<and> \<not> (\<exists>q. pullsFrom readyMineWorld q (2, 1)) \<longrightarrow>
         itemAt s'' 2 1 = Some (Some IronOre)"
    by auto
  with l3 nopull have 4: "\<exists>s'. stepGame readyMineWorld = Some s'
        \<and> itemAt s' 2 1 = Some (Some IronOre)
        \<and> tileAt s' 1 1 = Some \<lparr>terrain = Empty, resource = 0, building = Some ?b\<rparr>
        \<and> 1 \<le> ironMined (stats s')"
    unfolding e2 z by (simp add: zeroStats_def)
  from v t q(5) d 1 2 v3 t3 c3 l3 3 4 show ?thesis by simp
qed

text \<open>
  Claim C3 as stated fails when the proviso is read on the world the tick starts from. In
  \<open>twoMineWorld\<close> both mines reach progress 4 in the tick and (1,0), the target of both, is in
  bounds, holds no building and holds no item as the tick starts. The mine at (0,0), scanned
  first, emits; the mine at (2,0) then finds the target taken: its progress goes to 4 and is
  not reset, its resource stays at 5, and copperMined stays at 0.
\<close>

theorem mine_emission_counterexample:
  "tileAt twoMineWorld 2 0
       = Some \<lparr>terrain = Copper, resource = 5, building = Some ((newBuilding Mine Left)\<lparr>progress := 3\<rparr>)\<rparr>
   \<and> stepInDir 2 0 Left = (1, 0)
   \<and> inBounds twoMineWorld 1 0 \<and> layoutAt twoMineWorld 1 0 = Some None
   \<and> itemAt twoMineWorld 1 0 = Some None
   \<and> canPlaceItem twoMineWorld 1 0 = Some True
   \<and> stepGame twoMineWorld = Some
       \<lparr>width = 3, height = 1, tick = 1,
        tiles = [[\<lparr>terrain = Iron, resource = 4, building = Some (newBuilding Mine Right)\<rparr>,
                  emptyTile,
                  \<lparr>terrain = Copper, resource = 5,
                     building = Some ((newBuilding Mine Left)\<lparr>progress := 4\<rparr>)\<rparr>]],
        items = [[None, Some IronOre, None]],
        inventory = createBuffer,
        stats = zeroStats\<lparr>ironMined := 1\<rparr>\<rparr>"
  by code_simp

end
